theory Spec2Isabelle
  imports Main
begin

section \<open>The bulk content upload handler of the content service\<close>

text \<open>
  The development embeds \<^verbatim>\<open>src/routes/content/bulk.js\<close>: the request handler that reads
  a gzipped tarball of metadata envelopes, stores each envelope through a queue of at most
  ten concurrent workers, and afterwards removes from the store every content ID that the
  tarball neither contained nor asked to keep.

  The handler is a set of callbacks over per-request variables. The model keeps those
  variables in a record, makes every callback a function from the state to the new state
  and the list of effects the callback has on the outside (log lines, calls of the
  storage layer, the HTTP response), and lets the outside drive the handler through a
  list of events.

  JavaScript strings are modelled as \<^typ>\<open>string\<close>, read as the UTF-8 encoding of the text.
\<close>

subsection \<open>Values of the platform\<close>

text \<open>
  The errors the handler meets: the three built-in error classes that the platform
  functions used here can raise, and \<^verbatim>\<open>new Error(message)\<close>, which also stands for the
  errors handed over by the streams and by the storage layer.
\<close>

datatype js_error = SyntaxError | TypeError | URIError | Error string

text \<open>
  A value produced by \<^verbatim>\<open>JSON.parse\<close>. A number is kept as its rendering by
  \<^verbatim>\<open>Number.prototype.toString\<close>: the handler observes a number only through its
  truthiness and as a property key, and both are functions of that rendering (\<^verbatim>\<open>0\<close> and
  \<^verbatim>\<open>-0\<close> both render as \<^verbatim>\<open>0\<close>, and \<^verbatim>\<open>JSON.parse\<close> never yields \<^verbatim>\<open>NaN\<close>). The
  properties of an object are an association list with distinct keys.
\<close>

datatype json =
    JNull
  | JBool bool
  | JNumber string
  | JString string
  | JArray "json list"
  | JObject "(string \<times> json) list"

text \<open>\<^verbatim>\<open>!v\<close> is false exactly on the truthy values.\<close>

fun truthy :: "json \<Rightarrow> bool" where
  "truthy JNull = False"
| "truthy (JBool b) = b"
| "truthy (JNumber t) = (t \<noteq> ''0'')"
| "truthy (JString t) = (t \<noteq> [])"
| "truthy (JArray xs) = True"
| "truthy (JObject kvs) = True"

text \<open>
  \<^verbatim>\<open>v.key\<close> for a key that no built-in prototype defines (the handler reads
  \<^verbatim>\<open>contentIDBase\<close> and \<^verbatim>\<open>keep\<close>): reading a property of \<^verbatim>\<open>null\<close> raises a
  \<^verbatim>\<open>TypeError\<close>, an object yields its own property, and everywhere else the result is
  \<^verbatim>\<open>undefined\<close>, here \<^term>\<open>None\<close>.
\<close>

fun get_prop :: "json \<Rightarrow> string \<Rightarrow> js_error + json option" where
  "get_prop JNull k = Inl TypeError"
| "get_prop (JObject kvs) k = Inr (map_of kvs k)"
| "get_prop v k = Inr None"

text \<open>
  The property key of a value, as \<^verbatim>\<open>toKeep[contentID]\<close> computes it (\<^verbatim>\<open>ToPropertyKey\<close>).
  An array is joined with commas, \<^verbatim>\<open>null\<close> elements rendering as the empty string. A
  parsed object renders through \<^verbatim>\<open>Object.prototype.toString\<close>, unless it has an own
  property \<^verbatim>\<open>toString\<close>: that property is not callable, the inherited \<^verbatim>\<open>valueOf\<close> returns
  the object itself, and the conversion raises a \<^verbatim>\<open>TypeError\<close>.
\<close>

fun join_keys :: "(js_error + string) list \<Rightarrow> js_error + string" where
  "join_keys [] = Inr []"
| "join_keys [r] = r"
| "join_keys (r # rs) =
     (case r of
        Inl e \<Rightarrow> Inl e
      | Inr t \<Rightarrow> (case join_keys rs of Inl e \<Rightarrow> Inl e | Inr u \<Rightarrow> Inr (t @ '','' @ u)))"

fun to_key :: "json \<Rightarrow> js_error + string" where
  "to_key JNull = Inr ''null''"
| "to_key (JBool b) = Inr (if b then ''true'' else ''false'')"
| "to_key (JNumber t) = Inr t"
| "to_key (JString t) = Inr t"
| "to_key (JArray xs) =
     join_keys (map (\<lambda>x. if x = JNull then Inr [] else to_key x) xs)"
| "to_key (JObject kvs) =
     (if ''toString'' \<in> fst ` set kvs then Inl TypeError else Inr ''[object Object]'')"

subsection \<open>Paths\<close>

text \<open>
  The functions of Node's \<^verbatim>\<open>path\<close> module on POSIX, where \<^verbatim>\<open>path.sep\<close> is the slash.
  Strings are sequences of octets here, so that lengths and indices count octets; the
  functions below compare single characters with the slash and with the characters of an
  ASCII suffix only, which no octet of a longer UTF-8 sequence equals. The one comparison
  of two lengths, of the suffix and the path in \<^verbatim>\<open>path.basename\<close>, holds in either count
  on a path whose base name ends with the suffix, as in the one call of the handler.

  \<^verbatim>\<open>path.basename(p)\<close> is the last portion of the path, trailing slashes ignored.
\<close>

definition sep :: char where
  "sep = CHR ''/''"

definition strip_trailing_sep :: "string \<Rightarrow> string" where
  "strip_trailing_sep p = rev (dropWhile (\<lambda>c. c = sep) (rev p))"

definition basename :: "string \<Rightarrow> string" where
  "basename p = rev (takeWhile (\<lambda>c. c \<noteq> sep) (rev (strip_trailing_sep p)))"

definition endsWith :: "string \<Rightarrow> string \<Rightarrow> bool" where
  "endsWith t suffix = (length suffix \<le> length t \<and> drop (length t - length suffix) t = suffix)"

text \<open>\<^verbatim>\<open>t.slice(from, to)\<close>; a negative index counts from the end.\<close>

definition slice :: "string \<Rightarrow> int \<Rightarrow> int \<Rightarrow> string" where
  "slice t from to =
     (let len = int (length t);
          k = (if from < 0 then max (len + from) 0 else min from len);
          final = (if to < 0 then max (len + to) 0 else min to len)
      in take (nat (final - k)) (drop (nat k) t))"

text \<open>
  \<^verbatim>\<open>path.basename(p, suffix)\<close> with a non-empty suffix that is not longer than the path is a
  loop of its own in Node:

  \<^verbatim>\<open>
    let start = 0; let end = -1; let matchedSlash = true;
    if (suffix === path) return '';
    let extIdx = suffix.length - 1;
    let firstNonSlashEnd = -1;
    for (let i = path.length - 1; i >= 0; --i) {
      const code = path.charCodeAt(i);
      if (code === CHAR_FORWARD_SLASH) {
        if (!matchedSlash) { start = i + 1; break; }
      } else {
        if (firstNonSlashEnd === -1) { matchedSlash = false; firstNonSlashEnd = i + 1; }
        if (extIdx >= 0) {
          if (code === suffix.charCodeAt(extIdx)) {
            if (--extIdx === -1) { end = i; }
          } else { extIdx = -1; end = firstNonSlashEnd; }
        }
      }
    }
    if (start === end) end = firstNonSlashEnd;
    else if (end === -1) end = path.length;
    return path.slice(start, end);
  \<close>

  The loop runs through the path from its last character to its first:
  \<^verbatim>\<open>suffix_scan\<close> takes the characters \<^verbatim>\<open>path[i], path[i - 1], ..., path[0]\<close> that remain,
  with the variables of the loop, and returns \<^verbatim>\<open>start\<close>, \<^verbatim>\<open>end\<close> and \<^verbatim>\<open>firstNonSlashEnd\<close>.
  So a last portion that is nothing but the suffix is returned whole (\<^verbatim>\<open>start === end\<close>), and
  the result is empty only when the whole path is the suffix.
\<close>

fun suffix_scan :: "string \<Rightarrow> string \<Rightarrow> int \<Rightarrow> bool \<Rightarrow> int \<Rightarrow> int \<Rightarrow> int \<times> int \<times> int" where
  "suffix_scan [] ext end matchedSlash extIdx firstNonSlashEnd = (0, end, firstNonSlashEnd)"
| "suffix_scan (code # earlier) ext end matchedSlash extIdx firstNonSlashEnd =
     (let i = int (length earlier)
      in if code = sep then
           (if \<not> matchedSlash then (i + 1, end, firstNonSlashEnd)
            else suffix_scan earlier ext end matchedSlash extIdx firstNonSlashEnd)
         else
           (let matchedSlash' = (if firstNonSlashEnd = -1 then False else matchedSlash);
                firstNonSlashEnd' = (if firstNonSlashEnd = -1 then i + 1 else firstNonSlashEnd)
            in if extIdx \<ge> 0 then
                 (if code = ext ! nat extIdx then
                    (if extIdx - 1 = -1
                     then suffix_scan earlier ext i matchedSlash' (extIdx - 1) firstNonSlashEnd'
                     else suffix_scan earlier ext end matchedSlash' (extIdx - 1) firstNonSlashEnd')
                  else suffix_scan earlier ext firstNonSlashEnd' matchedSlash' (-1) firstNonSlashEnd')
               else suffix_scan earlier ext end matchedSlash' extIdx firstNonSlashEnd'))"

definition basename_ext :: "string \<Rightarrow> string \<Rightarrow> string" where
  "basename_ext p ext =
     (if length ext > 0 \<and> length ext \<le> length p then
        (if ext = p then []
         else
           (let (start, end, firstNonSlashEnd) =
                  suffix_scan (rev p) ext (-1) True (int (length ext) - 1) (-1)
            in if start = end then slice p start firstNonSlashEnd
               else if end = -1 then slice p start (int (length p))
               else slice p start end))
      else basename p)"

text \<open>
  \<^verbatim>\<open>path.dirname(p)\<close> is what precedes the last portion, without the slash that separates
  the two, \<^verbatim>\<open>.\<close> when nothing precedes it and \<^verbatim>\<open>/\<close> when only the root does:

  \<^verbatim>\<open>
    if (path.length === 0) return '.';
    const hasRoot = path.charCodeAt(0) === CHAR_FORWARD_SLASH;
    let end = -1; let matchedSlash = true;
    for (let i = path.length - 1; i >= 1; --i) {
      if (path.charCodeAt(i) === CHAR_FORWARD_SLASH) {
        if (!matchedSlash) { end = i; break; }
      } else { matchedSlash = false; }
    }
    if (end === -1) return hasRoot ? '/' : '.';
    if (hasRoot && end === 1) return '//';
    return path.slice(0, end);
  \<close>

  \<^verbatim>\<open>dirname_scan\<close> is the loop, which does not visit the first character, and returns
  \<^verbatim>\<open>end\<close>.
\<close>

fun dirname_scan :: "string \<Rightarrow> bool \<Rightarrow> int" where
  "dirname_scan (code # first # earlier) matchedSlash =
     (if code = sep then
        (if \<not> matchedSlash then int (length (first # earlier))
         else dirname_scan (first # earlier) matchedSlash)
      else dirname_scan (first # earlier) False)"
| "dirname_scan rest matchedSlash = -1"

definition dirname :: "string \<Rightarrow> string" where
  "dirname p =
     (if length p = 0 then ''.''
      else
        (let hasRoot = (hd p = sep);
             end = dirname_scan (rev p) True
         in if end = -1 then (if hasRoot then ''/'' else ''.'')
            else if hasRoot \<and> end = 1 then ''//''
            else slice p 0 end))"

text \<open>\<^verbatim>\<open>t.split(path.sep)\<close>: the pieces between the separators, at least one piece.\<close>

fun split_sep :: "string \<Rightarrow> string list" where
  "split_sep [] = [[]]"
| "split_sep (c # cs) =
     (if c = sep then [] # split_sep cs
      else (case split_sep cs of
              [] \<Rightarrow> [[c]]
            | piece # pieces \<Rightarrow> (c # piece) # pieces))"

subsection \<open>Percent-decoding\<close>

text \<open>
  \<^verbatim>\<open>decodeURIComponent\<close>. Every \<^verbatim>\<open>%\<close> must be followed by two hexadecimal digits. An
  escaped octet below 128 is that character. An escaped octet from 128 on must start a
  well-formed UTF-8 sequence whose other octets are escaped as well; the sequence is then
  the encoding of the decoded character. Anything else raises a \<^verbatim>\<open>URIError\<close>, here
  \<^term>\<open>None\<close>.
\<close>

definition hexval :: "char \<Rightarrow> nat option" where
  "hexval c =
     (let n = (of_char c :: nat)
      in if 48 \<le> n \<and> n \<le> 57 then Some (n - 48)
         else if 65 \<le> n \<and> n \<le> 70 then Some (n - 55)
         else if 97 \<le> n \<and> n \<le> 102 then Some (n - 87)
         else None)"

datatype uri_token = Plain char | Escape nat

fun uri_tokens :: "string \<Rightarrow> uri_token list option" where
  "uri_tokens [] = Some []"
| "uri_tokens (c # cs) =
     (if c = CHR ''%'' then
        (case cs of
           h # l # rest \<Rightarrow>
             (case (hexval h, hexval l) of
                (Some a, Some b) \<Rightarrow> map_option ((#) (Escape (16 * a + b))) (uri_tokens rest)
              | _ \<Rightarrow> None)
         | _ \<Rightarrow> None)
      else map_option ((#) (Plain c)) (uri_tokens cs))"

text \<open>The number of octets announced by a leading octet; 0 where no sequence can start.\<close>

definition utf8_length :: "nat \<Rightarrow> nat" where
  "utf8_length b =
     (if 192 \<le> b \<and> b < 224 then 2
      else if 224 \<le> b \<and> b < 240 then 3
      else if 240 \<le> b \<and> b < 248 then 4
      else 0)"

fun continuation :: "uri_token \<Rightarrow> nat option" where
  "continuation (Escape b) = (if 128 \<le> b \<and> b < 192 then Some b else None)"
| "continuation (Plain c) = None"

text \<open>
  Given a leading octet and continuation octets of the announced number: no overlong
  encoding, no surrogate, nothing beyond U+10FFFF.
\<close>

fun well_formed_utf8 :: "nat \<Rightarrow> nat list \<Rightarrow> bool" where
  "well_formed_utf8 b [] = False"
| "well_formed_utf8 b (c # cs) =
     (if b < 194 then False
      else if b = 224 then 160 \<le> c
      else if b = 237 then c < 160
      else if b = 240 then 144 \<le> c
      else if b = 244 then c < 144
      else b < 244)"

function decode_tokens :: "uri_token list \<Rightarrow> string option" where
  "decode_tokens [] = Some []"
| "decode_tokens (Plain c # ts) = map_option ((#) c) (decode_tokens ts)"
| "decode_tokens (Escape b # ts) =
     (if b < 128 then map_option ((#) (char_of b)) (decode_tokens ts)
      else
        (let n = utf8_length b
         in if n = 0 \<or> length ts < n - 1 then None
            else
              (case those (map continuation (take (n - 1) ts)) of
                 None \<Rightarrow> None
               | Some octets \<Rightarrow>
                   if well_formed_utf8 b octets
                   then map_option ((@) (map char_of (b # octets)))
                          (decode_tokens (drop (n - 1) ts))
                   else None)))"
  by pat_completeness auto
termination
  by (relation "measure length") auto

definition decodeURIComponent :: "string \<Rightarrow> string option" where
  "decodeURIComponent t =
     (case uri_tokens t of None \<Rightarrow> None | Some ts \<Rightarrow> decode_tokens ts)"

subsection \<open>Buffers and the JSON materializer\<close>

text \<open>
  \<^verbatim>\<open>Buffer.concat(list, totalLength)\<close>: an empty list gives the empty buffer; without
  \<^verbatim>\<open>totalLength\<close> the buffers are joined; with it the result has exactly that length, the
  joined buffers cut off there when they are longer and followed by zero octets when they
  are shorter.
\<close>

definition Buffer_concat :: "string list \<Rightarrow> nat option \<Rightarrow> string" where
  "Buffer_concat list totalLength =
     (if list = [] then []
      else (case totalLength of
              None \<Rightarrow> concat list
            | Some n \<Rightarrow>
                take n (concat list) @ replicate (n - length (concat list)) (CHR 0x00)))"

text \<open>
  \<^verbatim>\<open>JSON.parse(b.toString('utf-8'))\<close> is a parameter of the model, a function from the
  octets of the buffer to the parsed value, \<^term>\<open>None\<close> where \<^verbatim>\<open>JSON.parse\<close> raises its
  \<^verbatim>\<open>SyntaxError\<close>.
\<close>

type_synonym parser = "string \<Rightarrow> json option"

text \<open>
  The body of the \<^verbatim>\<open>try\<close> block of \<^verbatim>\<open>jsonFromStream\<close>, up to the call of the callback:
  \<^verbatim>\<open>
  let b = Buffer.concat(chunks, stream.size);
  let s = b.toString('utf-8');
  let payload = JSON.parse(s);
  \<close>
\<close>

definition materialize :: "parser \<Rightarrow> nat option \<Rightarrow> string list \<Rightarrow> js_error + json" where
  "materialize P sz chunks =
     (case P (Buffer_concat chunks sz) of
        None \<Rightarrow> Inl SyntaxError
      | Some payload \<Rightarrow> Inr payload)"

subsection \<open>The request state and the effects of the handler\<close>

text \<open>
  An entry of the tarball as the parser hands it over: its path, its type, the size the
  tar header announces (\<^term>\<open>None\<close> when the entry has no \<^verbatim>\<open>size\<close>), and the events its
  content stream will emit.
\<close>

datatype entry_type = File | Directory | OtherType string

datatype stream_event = Data string | StreamError js_error | StreamEnd

record entry =
  path :: string
  etype :: entry_type
  stream_size :: "nat option"
  stream :: "stream_event list"

text \<open>A task of the upload queue: \<^verbatim>\<open>{ contentID, envelope }\<close>.\<close>

type_synonym task = "string \<times> json"

text \<open>
  The variables of one request. The first five are the \<^verbatim>\<open>let\<close> variables of the handler;
  \<^verbatim>\<open>toKeep\<close> holds the own properties of the object (each set to \<^verbatim>\<open>true\<close>). The next four
  are the state of \<^verbatim>\<open>uploadQueue\<close>: the tasks waiting in the queue, the tasks handed to a
  worker and not yet finished (\<^verbatim>\<open>running()\<close> is their number), whether \<^verbatim>\<open>drain\<close> has been
  set to \<^verbatim>\<open>finishRequest\<close>, and the number of deferred calls of the queue's \<^verbatim>\<open>process\<close>
  that \<^verbatim>\<open>push\<close> has scheduled. The last two belong to \<^verbatim>\<open>removeDeletedContent\<close>:
  \<^verbatim>\<open>existingContentIDs\<close> while the listing callback is awaited, and whether the callback
  of \<^verbatim>\<open>removeEnvelopes\<close> is awaited.
\<close>

record state =
  contentIDBase :: "json option"
  envelopeCount :: nat
  failureCount :: nat
  deletionCount :: nat
  toKeep :: "string set"
  tasks :: "task list"
  workers :: "task list"
  drain :: bool
  scheduled :: nat
  listing :: "string list option"
  removing :: bool

definition initial :: state where
  "initial =
     \<lparr>contentIDBase = None, envelopeCount = 0, failureCount = 0, deletionCount = 0,
      toKeep = {}, tasks = [], workers = [], drain = False, scheduled = 0,
      listing = None, removing = False\<rparr>"

datatype level = Ldebug | Linfo | Lwarn | Lerror

text \<open>
  What a callback does to the outside: a log line; a problem logged by \<^verbatim>\<open>reportError\<close>
  (level, description, entry path, error); the final log line of \<^verbatim>\<open>reportCompletion\<close>
  with the accepted, failed and deleted counts; \<^verbatim>\<open>res.send\<close> with its status code and
  body; \<^verbatim>\<open>next()\<close>; \<^verbatim>\<open>next(err)\<close> with the status code set on the error; the three calls
  of the storage layer and the request for the next page of a listing; and an exception
  that leaves an event handler uncaught.
\<close>

datatype effect =
    Log level string
  | LogProblem level string "string option" js_error
  | LogCompleted nat nat nat
  | Send nat "js_error option"
  | Next
  | NextError js_error nat
  | StoreEnvelope string json
  | ListContent json
  | ListNext
  | RemoveEnvelopes "string list"
  | Uncaught js_error

type_synonym outcome = "state \<times> effect list"

subsection \<open>The keep-set\<close>

text \<open>
  \<^verbatim>\<open>toKeep\<close> is created as \<^verbatim>\<open>{}\<close>, so it inherits from \<^verbatim>\<open>Object.prototype\<close>, whose
  properties are all truthy (functions, and the object that \<^verbatim>\<open>__proto__\<close> yields).
\<close>

definition Object_prototype :: "string list" where
  "Object_prototype =
     [''constructor'', ''__defineGetter__'', ''__defineSetter__'', ''hasOwnProperty'',
      ''__lookupGetter__'', ''__lookupSetter__'', ''isPrototypeOf'',
      ''propertyIsEnumerable'', ''toString'', ''valueOf'', ''__proto__'',
      ''toLocaleString'']"

text \<open>
  \<^verbatim>\<open>toKeep[id] = true\<close>. For \<^verbatim>\<open>__proto__\<close> the assignment reaches the inherited setter,
  which ignores a value that is neither an object nor \<^verbatim>\<open>null\<close>.
\<close>

definition set_true :: "string set \<Rightarrow> string \<Rightarrow> string set" where
  "set_true obj k = (if k = ''__proto__'' then obj else insert k obj)"

text \<open>Whether \<^verbatim>\<open>toKeep[id]\<close> is truthy: an own property or an inherited one.\<close>

definition kept :: "string set \<Rightarrow> string \<Rightarrow> bool" where
  "kept obj k = (k \<in> obj \<or> k \<in> set Object_prototype)"

subsection \<open>Reporting\<close>

text \<open>
  \<^verbatim>\<open>
  const reportError = (err, entryPath, description, fatal) => {
    ...
    if (fatal) {
      logger.error(`Fatal bulk upload problem: ${description}`, logPayload);
      err.statusCode = 400;
      next(err);
    } else {
      logger.warn(`Bulk upload problem: ${description}`, logPayload);
    }
  };
  \<close>
\<close>

definition reportError :: "js_error \<Rightarrow> string option \<Rightarrow> string \<Rightarrow> bool \<Rightarrow> effect list" where
  "reportError err entryPath description fatal =
     (if fatal then
        [LogProblem Lerror (''Fatal bulk upload problem: '' @ description) entryPath err,
         NextError err 400]
      else
        [LogProblem Lwarn (''Bulk upload problem: '' @ description) entryPath err])"

definition reportCompletion :: "state \<Rightarrow> effect list" where
  "reportCompletion s =
     [LogCompleted (envelopeCount s) (failureCount s) (deletionCount s), Send 204 None, Next]"

subsection \<open>Reading an entry as JSON\<close>

text \<open>
  A callback handed to \<^verbatim>\<open>jsonFromStream\<close> takes the error or the payload and the state;
  it returns the new state, its effects, and the exception it raises, if any.
\<close>

type_synonym callback = "js_error + json \<Rightarrow> state \<Rightarrow> outcome \<times> js_error option"

text \<open>
  \<^verbatim>\<open>callback(err)\<close>, called by the stream's \<^verbatim>\<open>error\<close> event or from the \<^verbatim>\<open>catch\<close> block:
  nothing catches what the callback raises there.
\<close>

definition call_with_error :: "callback \<Rightarrow> js_error \<Rightarrow> state \<Rightarrow> outcome" where
  "call_with_error callback err s =
     (case callback (Inl err) s of
        ((s1, out1), None) \<Rightarrow> (s1, out1)
      | ((s1, out1), Some e) \<Rightarrow> (s1, out1 @ [Uncaught e]))"

text \<open>
  The handler of the stream's \<^verbatim>\<open>end\<close> event. The callback is called inside the \<^verbatim>\<open>try\<close>
  block, so an exception it raises is caught too and the callback is called again, with
  that exception as its error.
  \<^verbatim>\<open>
  try {
    let b = Buffer.concat(chunks, stream.size);
    let s = b.toString('utf-8');
    let payload = JSON.parse(s);
    return callback(null, payload);
  } catch (err) {
    return callback(err);
  }
  \<close>
\<close>

definition on_stream_end :: "parser \<Rightarrow> nat option \<Rightarrow> string list \<Rightarrow> callback \<Rightarrow> state \<Rightarrow> outcome" where
  "on_stream_end P sz chunks callback s =
     (case materialize P sz chunks of
        Inl err \<Rightarrow> call_with_error callback err s
      | Inr payload \<Rightarrow>
          (case callback (Inr payload) s of
             ((s1, out1), None) \<Rightarrow> (s1, out1)
           | ((s1, out1), Some err) \<Rightarrow>
               (let (s2, out2) = call_with_error callback err s1 in (s2, out1 @ out2))))"

text \<open>
  \<^verbatim>\<open>jsonFromStream\<close> registers three handlers; the function plays the events of the stream
  against them, \<^verbatim>\<open>chunks\<close> being the array they share.
  \<^verbatim>\<open>
  stream.on('data', (chunk) => chunks.push(chunk));
  stream.on('error', callback);
  stream.on('end', () => { ... });
  \<close>
\<close>

fun jsonFromStream ::
  "parser \<Rightarrow> nat option \<Rightarrow> callback \<Rightarrow> stream_event list \<Rightarrow> string list \<Rightarrow> state \<Rightarrow> outcome"
where
  "jsonFromStream P sz callback [] chunks s = (s, [])"
| "jsonFromStream P sz callback (Data chunk # evs) chunks s =
     jsonFromStream P sz callback evs (chunks @ [chunk]) s"
| "jsonFromStream P sz callback (StreamError err # evs) chunks s =
     (let (s1, out1) = call_with_error callback err s;
          (s2, out2) = jsonFromStream P sz callback evs chunks s1
      in (s2, out1 @ out2))"
| "jsonFromStream P sz callback (StreamEnd # evs) chunks s =
     (let (s1, out1) = on_stream_end P sz chunks callback s;
          (s2, out2) = jsonFromStream P sz callback evs chunks s1
      in (s2, out1 @ out2))"

subsection \<open>The upload queue\<close>

text \<open>
  Modelled from the spec: the queue behind
  \<^verbatim>\<open>const uploadQueue = async.queue(envelopeWorker, 10);\<close>
  is an object of the \<^verbatim>\<open>async\<close> library, which is not among the sources. The
  specification describes it as a worker pool with a fixed concurrency bound that consumes
  the tasks in arrival order and signals \<^verbatim>\<open>drain\<close> when the number of pending and
  in-flight tasks reaches zero. The definitions \<open>queue_push\<close>, \<open>process_loop\<close>,
  \<open>queue_process\<close> and \<open>queue_next\<close> follow that description and the contract of the
  library: \<^verbatim>\<open>push\<close> appends the task to the waiting tasks and defers a call of
  \<^verbatim>\<open>process\<close>; \<^verbatim>\<open>process\<close> hands waiting tasks to the worker while fewer than
  \<^verbatim>\<open>concurrency\<close> tasks are running; the callback given to the worker takes the task out
  of the running ones, calls \<^verbatim>\<open>drain\<close> when no task is waiting or running, and calls
  \<^verbatim>\<open>process\<close> again; \<^verbatim>\<open>running()\<close> is the number of running tasks. The bound 10 and
  the worker are the handler's own.
\<close>

definition concurrency :: nat where
  "concurrency = 10"

definition queue_push :: "task \<Rightarrow> state \<Rightarrow> state" where
  "queue_push t s = s\<lparr>tasks := tasks s @ [t], scheduled := scheduled s + 1\<rparr>"

text \<open>
  The worker up to its call of \<^verbatim>\<open>storeEnvelope\<close>, whose callback arrives later.
  \<^verbatim>\<open>
  const envelopeWorker = (task, cb) => {
    logger.debug('Beginning envelope storage', { contentID: task.contentID });
    let storageStart = Date.now();
    storeEnvelope(task.contentID, task.envelope, (err) => { ... });
  };
  \<close>
\<close>

definition envelopeWorker :: "task \<Rightarrow> effect list" where
  "envelopeWorker t = [Log Ldebug ''Beginning envelope storage'', StoreEnvelope (fst t) (snd t)]"

fun process_loop :: "task list \<Rightarrow> task list \<Rightarrow> task list \<times> task list \<times> effect list" where
  "process_loop [] running = ([], running, [])"
| "process_loop (t # waiting) running =
     (if length running < concurrency then
        (let (waiting', running', out) = process_loop waiting (running @ [t])
         in (waiting', running', envelopeWorker t @ out))
      else (t # waiting, running, []))"

definition queue_process :: "state \<Rightarrow> outcome" where
  "queue_process s =
     (let (waiting, running, out) = process_loop (tasks s) (workers s)
      in (s\<lparr>tasks := waiting, workers := running\<rparr>, out))"

subsection \<open>Removing deleted content and finishing the request\<close>

definition truthy_opt :: "json option \<Rightarrow> bool" where
  "truthy_opt v = (case v of None \<Rightarrow> False | Some w \<Rightarrow> truthy w)"

text \<open>
  The callback that \<^verbatim>\<open>finishRequest\<close> gives to \<^verbatim>\<open>removeDeletedContent\<close>. Nothing leaves
  the callback after \<^verbatim>\<open>reportError\<close>: \<^verbatim>\<open>reportCompletion\<close> is called in both cases.
  \<^verbatim>\<open>
  removeDeletedContent((err) => {
    if (err) {
      reportError(err, null, 'deleted content removal', true);
    }

    reportCompletion();
  });
  \<close>
\<close>

definition finish_callback :: "js_error option \<Rightarrow> state \<Rightarrow> effect list" where
  "finish_callback err s =
     (case err of
        Some e \<Rightarrow> reportError e None ''deleted content removal'' True
      | None \<Rightarrow> [])
     @ reportCompletion s"

text \<open>
  \<^verbatim>\<open>removeDeletedContent\<close> up to its call of \<^verbatim>\<open>storage.listContent\<close>; its only caller is
  \<^verbatim>\<open>finishRequest\<close>, so \<^verbatim>\<open>cb\<close> is the callback above.
  \<^verbatim>\<open>
  if (!contentIDBase) {
    logger.debug('Skipping content deletion.');
    return cb(null);
  }

  let existingContentIDs = [];

  storage.listContent(contentIDBase, (err, ids, next) => { ... });
  \<close>
\<close>

definition removeDeletedContent :: "state \<Rightarrow> outcome" where
  "removeDeletedContent s =
     (case contentIDBase s of
        Some base \<Rightarrow>
          if \<not> truthy base
          then (s, Log Ldebug ''Skipping content deletion.'' # finish_callback None s)
          else (s\<lparr>listing := Some []\<rparr>, [ListContent base])
      | None \<Rightarrow> (s, Log Ldebug ''Skipping content deletion.'' # finish_callback None s))"

definition finishRequest :: "state \<Rightarrow> outcome" where
  "finishRequest s = removeDeletedContent s"

text \<open>
  The callback of \<^verbatim>\<open>storage.listContent\<close>, called once for each page.
  \<^verbatim>\<open>
  if (err) return cb(err);

  if (ids.length > 0) {
    existingContentIDs = existingContentIDs.concat(ids);
    next();
  } else {
    let toDelete = existingContentIDs.filter((id) => !toKeep[id]);
    deletionCount = toDelete.length;
    logger.debug('Deleting removed envelopes.', { deletionCount });
    removeEnvelopes(toDelete, (err, results) => { ... });
  }
  \<close>
\<close>

definition on_list_page :: "js_error + string list \<Rightarrow> state \<Rightarrow> outcome" where
  "on_list_page page s =
     (case listing s of
        None \<Rightarrow> (s, [])
      | Some existingContentIDs \<Rightarrow>
          (case page of
             Inl err \<Rightarrow> (s\<lparr>listing := None\<rparr>, finish_callback (Some err) s)
           | Inr ids \<Rightarrow>
               if length ids > 0
               then (s\<lparr>listing := Some (existingContentIDs @ ids)\<rparr>, [ListNext])
               else
                 (let toDelete = filter (\<lambda>id. \<not> kept (toKeep s) id) existingContentIDs
                  in (s\<lparr>deletionCount := length toDelete, listing := None, removing := True\<rparr>,
                      [Log Ldebug ''Deleting removed envelopes.'', RemoveEnvelopes toDelete]))))"

text \<open>
  The callback of \<^verbatim>\<open>removeEnvelopes\<close>.
  \<^verbatim>\<open>
  if (err) return cb(err);
  logger.debug('Envelopes deleted.');
  cb();
  \<close>
\<close>

definition on_remove_done :: "js_error option \<Rightarrow> state \<Rightarrow> outcome" where
  "on_remove_done err s =
     (if removing s then
        (let s1 = s\<lparr>removing := False\<rparr>
         in case err of
              Some e \<Rightarrow> (s1, finish_callback (Some e) s1)
            | None \<Rightarrow> (s1, Log Ldebug ''Envelopes deleted.'' # finish_callback None s1))
      else (s, []))"

text \<open>
  Modelled from the spec: the callback the queue of the \<^verbatim>\<open>async\<close> library gives to the
  worker, here for the running task at position \<^verbatim>\<open>i\<close>; \<^verbatim>\<open>drain\<close> is \<^verbatim>\<open>finishRequest\<close>
  once the handler has set it, and does nothing before.
\<close>

definition queue_next :: "nat \<Rightarrow> state \<Rightarrow> outcome" where
  "queue_next i s =
     (let s1 = s\<lparr>workers := take i (workers s) @ drop (Suc i) (workers s)\<rparr>;
          (s2, out2) =
            (if length (tasks s1) + length (workers s1) = 0 \<and> drain s1
             then finishRequest s1 else (s1, []));
          (s3, out3) = queue_process s2
      in (s3, out2 @ out3))"

text \<open>
  The callback of \<^verbatim>\<open>storeEnvelope\<close> in the worker, for the running task at position \<^verbatim>\<open>i\<close>.
  \<^verbatim>\<open>
  if (err) {
    failureCount++;
    reportError(err, null, 'storing metadata envelope');
    return cb();
  }

  envelopeCount++;
  logger.debug('Envelope stored successfully', { ... });
  cb();
  \<close>
\<close>

definition on_store_done :: "nat \<Rightarrow> js_error option \<Rightarrow> state \<Rightarrow> outcome" where
  "on_store_done i err s =
     (if i < length (workers s) then
        (case err of
           Some e \<Rightarrow>
             (let (s1, out1) = queue_next i (s\<lparr>failureCount := failureCount s + 1\<rparr>)
              in (s1, reportError e None ''storing metadata envelope'' False @ out1))
         | None \<Rightarrow>
             (let (s1, out1) = queue_next i (s\<lparr>envelopeCount := envelopeCount s + 1\<rparr>)
              in (s1, Log Ldebug ''Envelope stored successfully'' # out1)))
      else (s, []))"

subsection \<open>The entry handlers\<close>

text \<open>
  \<^verbatim>\<open>
  const handleConfigEntry = (entry) => {
    jsonFromStream(entry, (err, config) => {
      if (err) return reportError(err, entry.path, 'parsing config.json');

      if (!config.contentIDBase) {
        let e = new Error('Missing required key: contentIDBase');
        return reportError(e, entry.path, 'parsing config.json');
      }

      contentIDBase = config.contentIDBase;
    });
  };
  \<close>
\<close>

definition config_callback :: "string \<Rightarrow> callback" where
  "config_callback entryPath r s =
     (case r of
        Inl err \<Rightarrow> ((s, reportError err (Some entryPath) ''parsing config.json'' False), None)
      | Inr config \<Rightarrow>
          (case get_prop config ''contentIDBase'' of
             Inl thrown \<Rightarrow> ((s, []), Some thrown)
           | Inr v \<Rightarrow>
               if \<not> truthy_opt v
               then ((s, reportError (Error ''Missing required key: contentIDBase'')
                           (Some entryPath) ''parsing config.json'' False), None)
               else ((s\<lparr>contentIDBase := v\<rparr>, []), None)))"

definition handleConfigEntry :: "parser \<Rightarrow> entry \<Rightarrow> state \<Rightarrow> outcome" where
  "handleConfigEntry P e s =
     jsonFromStream P (stream_size e) (config_callback (path e)) (stream e) [] s"

text \<open>
  \<^verbatim>\<open>
  const handleKeepEntry = (entry) => {
    jsonFromStream(entry, (err, keep) => {
      if (err) return reportError(err, entry.path, 'parsing keep.json');

      if (!keep.keep) {
        let e = new Error('Missing required key: keep');
        return reportError(e, entry.path, 'parsing keep.json');
      }

      keep.keep.forEach((contentID) => {
        toKeep[contentID] = true;
      });
    });
  };
  \<close>
  Only an array has a \<^verbatim>\<open>forEach\<close> to call; on any other truthy value the call raises a
  \<^verbatim>\<open>TypeError\<close>. The loop stops at the first element whose property key cannot be
  computed, the elements before it staying in \<^verbatim>\<open>toKeep\<close>.
\<close>

fun keep_forEach :: "json list \<Rightarrow> state \<Rightarrow> outcome \<times> js_error option" where
  "keep_forEach [] s = ((s, []), None)"
| "keep_forEach (contentID # rest) s =
     (case to_key contentID of
        Inl thrown \<Rightarrow> ((s, []), Some thrown)
      | Inr k \<Rightarrow> keep_forEach rest (s\<lparr>toKeep := set_true (toKeep s) k\<rparr>))"

definition keep_callback :: "string \<Rightarrow> callback" where
  "keep_callback entryPath r s =
     (case r of
        Inl err \<Rightarrow> ((s, reportError err (Some entryPath) ''parsing keep.json'' False), None)
      | Inr keep \<Rightarrow>
          (case get_prop keep ''keep'' of
             Inl thrown \<Rightarrow> ((s, []), Some thrown)
           | Inr v \<Rightarrow>
               if \<not> truthy_opt v
               then ((s, reportError (Error ''Missing required key: keep'')
                           (Some entryPath) ''parsing keep.json'' False), None)
               else (case v of
                       Some (JArray ids) \<Rightarrow> keep_forEach ids s
                     | _ \<Rightarrow> ((s, []), Some TypeError))))"

definition handleKeepEntry :: "parser \<Rightarrow> entry \<Rightarrow> state \<Rightarrow> outcome" where
  "handleKeepEntry P e s =
     jsonFromStream P (stream_size e) (keep_callback (path e)) (stream e) [] s"

text \<open>
  \<^verbatim>\<open>
  const handleEnvelopeEntry = (entry) => {
    let encodedContentID = path.basename(entry.path, '.json');
    let contentID = decodeURIComponent(encodedContentID);
    toKeep[contentID] = true;

    jsonFromStream(entry, (err, envelope) => {
      if (err) {
        failureCount++;
        return reportError(err, entry.path, 'parsing metadata envelope');
      }

      uploadQueue.push({ contentID, envelope });
    });
  };
  \<close>
  When \<^verbatim>\<open>decodeURIComponent\<close> raises its \<^verbatim>\<open>URIError\<close>, the exception leaves the handler of
  the \<^verbatim>\<open>entry\<close> event before anything has been changed.
\<close>

definition envelope_callback :: "string \<Rightarrow> string \<Rightarrow> callback" where
  "envelope_callback entryPath contentID r s =
     (case r of
        Inl err \<Rightarrow>
          ((s\<lparr>failureCount := failureCount s + 1\<rparr>,
            reportError err (Some entryPath) ''parsing metadata envelope'' False), None)
      | Inr envelope \<Rightarrow> ((queue_push (contentID, envelope) s, []), None))"

definition handleEnvelopeEntry :: "parser \<Rightarrow> entry \<Rightarrow> state \<Rightarrow> outcome" where
  "handleEnvelopeEntry P e s =
     (let encodedContentID = basename_ext (path e) ''.json''
      in case decodeURIComponent encodedContentID of
           None \<Rightarrow> (s, [Uncaught URIError])
         | Some contentID \<Rightarrow>
             jsonFromStream P (stream_size e) (envelope_callback (path e) contentID)
               (stream e) [] (s\<lparr>toKeep := set_true (toKeep s) contentID\<rparr>))"

subsection \<open>The handlers of the parse stream\<close>

definition emit :: "effect list \<Rightarrow> outcome \<Rightarrow> outcome" where
  "emit out r = (fst r, out @ snd r)"

text \<open>
  \<^verbatim>\<open>
  parse.on('entry', (entry) => {
    if (entry.type !== 'File') return;

    let dirs = path.dirname(entry.path).split(path.sep);
    let dname = dirs[dirs.length - 1];
    let bname = path.basename(entry.path);

    logger.debug('Received entry for path', { path: entry.path });

    if (dname === 'metadata') {
      switch (bname) {
        case 'config.json': handleConfigEntry(entry); break;
        case 'keep.json': handleKeepEntry(entry); break;
        default: logger.warn('Unrecognized metadata entry', { ... }); break;
      }
    } else if (bname.endsWith('.json')) {
      handleEnvelopeEntry(entry);
    } else {
      logger.warn('Unrecognized entry', { ... });
    }
  });
  \<close>
\<close>

definition on_entry :: "parser \<Rightarrow> entry \<Rightarrow> state \<Rightarrow> outcome" where
  "on_entry P e s =
     (if etype e \<noteq> File then (s, [])
      else
        (let dirs = split_sep (dirname (path e));
             dname = last dirs;
             bname = basename (path e);
             received = [Log Ldebug ''Received entry for path'']
         in if dname = ''metadata'' then
              (if bname = ''config.json'' then emit received (handleConfigEntry P e s)
               else if bname = ''keep.json'' then emit received (handleKeepEntry P e s)
               else (s, received @ [Log Lwarn ''Unrecognized metadata entry'']))
            else if endsWith bname ''.json'' then emit received (handleEnvelopeEntry P e s)
            else (s, received @ [Log Lwarn ''Unrecognized entry''])))"

text \<open>
  \<^verbatim>\<open>
  parse.on('error', (err) => {
    logger.info('Corrupted tarball uploaded', { ... });
    res.send(400, err);
    next();
  });
  \<close>
\<close>

definition on_parse_error :: "js_error \<Rightarrow> state \<Rightarrow> outcome" where
  "on_parse_error err s = (s, [Log Linfo ''Corrupted tarball uploaded'', Send 400 (Some err), Next])"

text \<open>
  \<^verbatim>\<open>
  parse.on('end', () => {
    const finishRequest = () => { removeDeletedContent((err) => { ... }); };

    if (uploadQueue.running()) {
      uploadQueue.drain = finishRequest;
    } else {
      finishRequest();
    }
  });
  \<close>
\<close>

definition on_parse_end :: "state \<Rightarrow> outcome" where
  "on_parse_end s =
     (if length (workers s) \<noteq> 0 then (s\<lparr>drain := True\<rparr>, [])
      else finishRequest s)"

subsection \<open>Events\<close>

text \<open>
  What reaches the handler from outside: an entry of the tarball with the events of its
  content stream, the failure or the end of the parse stream, the deferred call of the
  queue's \<^verbatim>\<open>process\<close>, the completion of the running task at a position of the queue, a
  page of the listing (or its failure), and the completion of the removal. The content
  of an entry is played as one event with the entry, the parser delivering it before
  anything else of the archive. A completion, a page or a deferred call that nothing is
  waiting for changes nothing; the handlers of the parse stream are always there, as in
  the source.
\<close>

datatype event =
    Entry entry
  | ParseError js_error
  | ParseEnd
  | Immediate
  | StoreDone nat "js_error option"
  | ListPage "js_error + string list"
  | RemoveDone "js_error option"

definition on_immediate :: "state \<Rightarrow> outcome" where
  "on_immediate s =
     (if scheduled s > 0 then queue_process (s\<lparr>scheduled := scheduled s - 1\<rparr>) else (s, []))"

fun step :: "parser \<Rightarrow> state \<Rightarrow> event \<Rightarrow> outcome" where
  "step P s (Entry e) = on_entry P e s"
| "step P s (ParseError err) = on_parse_error err s"
| "step P s ParseEnd = on_parse_end s"
| "step P s Immediate = on_immediate s"
| "step P s (StoreDone i err) = on_store_done i err s"
| "step P s (ListPage page) = on_list_page page s"
| "step P s (RemoveDone err) = on_remove_done err s"

fun run :: "parser \<Rightarrow> state \<Rightarrow> event list \<Rightarrow> outcome" where
  "run P s [] = (s, [])"
| "run P s (ev # evs) =
     (let (s1, out1) = step P s ev;
          (s2, out2) = run P s1 evs
      in (s2, out1 @ out2))"

subsection \<open>Notions of the specification\<close>

text \<open>
  The Entry Classifier in the words of the specification, on the name of the immediate
  parent directory and on the base name: under \<^verbatim>\<open>metadata\<close>, \<^verbatim>\<open>config.json\<close> is the
  Config entry, \<^verbatim>\<open>keep.json\<close> the Keep entry and anything else is ignored; elsewhere a
  base name ending in \<^verbatim>\<open>.json\<close> is an envelope whose content ID is the percent-decoding
  of the base name without that suffix (\<^term>\<open>None\<close> where the base name has no
  percent-decoding); anything else is ignored.
\<close>

datatype classification = Config | Keep | Envelope "string option" | Ignored

definition parent_name :: "string \<Rightarrow> string" where
  "parent_name p = last (split_sep (dirname p))"

definition classify :: "string \<Rightarrow> classification" where
  "classify p =
     (if parent_name p = ''metadata'' then
        (if basename p = ''config.json'' then Config
         else if basename p = ''keep.json'' then Keep
         else Ignored)
      else if endsWith (basename p) ''.json''
      then Envelope (decodeURIComponent (take (length (basename p) - length ''.json'') (basename p)))
      else Ignored)"

text \<open>
  The same classifier with the name that \<^verbatim>\<open>path.basename(p, '.json')\<close> gives an envelope: a
  base name that is nothing but \<^verbatim>\<open>.json\<close> is not stripped, it is the name itself, unless
  the whole path is \<^verbatim>\<open>.json\<close>, whose name is empty.
\<close>

definition envelope_name :: "string \<Rightarrow> string" where
  "envelope_name p =
     (let base = basename p
      in if base = ''.json'' then (if p = ''.json'' then [] else base)
         else take (length base - length ''.json'') base)"

definition classify_by_name :: "string \<Rightarrow> classification" where
  "classify_by_name p =
     (if parent_name p = ''metadata'' then
        (if basename p = ''config.json'' then Config
         else if basename p = ''keep.json'' then Keep
         else Ignored)
      else if endsWith (basename p) ''.json''
      then Envelope (decodeURIComponent (envelope_name p))
      else Ignored)"

text \<open>
  The classes of HTTP status codes, and the status codes with which a list of effects
  answers the request with an error: the status set on the error given to \<^verbatim>\<open>next\<close>, and
  the status of a response that carries an error.
\<close>

definition client_class :: "nat \<Rightarrow> bool" where
  "client_class code = (400 \<le> code \<and> code < 500)"

definition server_class :: "nat \<Rightarrow> bool" where
  "server_class code = (500 \<le> code \<and> code < 600)"

fun error_statuses :: "effect list \<Rightarrow> nat list" where
  "error_statuses [] = []"
| "error_statuses (NextError err code # out) = code # error_statuses out"
| "error_statuses (Send code (Some err) # out) = code # error_statuses out"
| "error_statuses (x # out) = error_statuses out"

subsection \<open>Observations on effects and runs\<close>

text \<open>The storage puts among a list of effects.\<close>

fun is_put :: "effect \<Rightarrow> bool" where
  "is_put (StoreEnvelope contentID envelope) = True"
| "is_put x = False"

definition puts :: "effect list \<Rightarrow> nat" where
  "puts out = length (filter is_put out)"

text \<open>The calls that belong to the Reconciliation Pass.\<close>

fun reconciling :: "effect \<Rightarrow> bool" where
  "reconciling (ListContent base) = True"
| "reconciling ListNext = True"
| "reconciling (RemoveEnvelopes ids) = True"
| "reconciling x = False"

text \<open>
  The two effects with which \<^verbatim>\<open>removeDeletedContent\<close> begins: the call of the listing, or
  the log line that says the pass is skipped.
\<close>

fun begins :: "effect \<Rightarrow> bool" where
  "begins (ListContent base) = True"
| "begins (Log lvl message) = (message = ''Skipping content deletion.'')"
| "begins x = False"

text \<open>
  The number of completions of a running task among the events of a run: a \<open>StoreDone\<close>
  event counts when it names a running task.
\<close>

fun completed :: "parser \<Rightarrow> state \<Rightarrow> event list \<Rightarrow> nat" where
  "completed P s [] = 0"
| "completed P s (ev # evs) =
     (case ev of
        StoreDone i err \<Rightarrow> (if i < length (workers s) then 1 else 0)
      | _ \<Rightarrow> 0)
     + completed P (fst (step P s ev)) evs"

text \<open>
  A run in which every deferred call of the queue's \<^verbatim>\<open>process\<close> has taken place when the
  end of the parse stream arrives.
\<close>

fun deferred_before_end :: "parser \<Rightarrow> state \<Rightarrow> event list \<Rightarrow> bool" where
  "deferred_before_end P s [] = True"
| "deferred_before_end P s (ev # evs) =
     ((ev = ParseEnd \<longrightarrow> scheduled s = 0) \<and> deferred_before_end P (fst (step P s ev)) evs)"



subsection \<open>Examples\<close>

text \<open>
  \<^verbatim>\<open>JSON.parse\<close> on the texts the examples below use, and on no other text.
\<close>

definition parse_examples :: parser where
  \<open>parse_examples t =
     (if t = ''{}'' then Some (JObject [])
      else if t = ''{"contentIDBase":"base"}'' then Some (JObject [(''contentIDBase'', JString ''base'')])
      else if t = ''{"keep":["c"]}'' then Some (JObject [(''keep'', JArray [JString ''c''])])
      else if t = ''null'' then Some JNull
      else None)\<close>

text \<open>
  An entry for a file whose stream delivers the body in one chunk and ends, the tar header
  announcing the length of the body.
\<close>

definition file_entry :: "string \<Rightarrow> string \<Rightarrow> entry" where
  "file_entry p body =
     \<lparr>path = p, etype = File, stream_size = Some (length body), stream = [Data body, StreamEnd]\<rparr>"

text \<open>
  The entries the examples below use: a Config entry naming the base \<^verbatim>\<open>base\<close>, a Keep
  entry listing \<^verbatim>\<open>c\<close>, an envelope for the content ID \<^verbatim>\<open>a\<close> whose body is not JSON,
  and an envelope for the content ID \<^verbatim>\<open>b c\<close>.
\<close>

definition config_example :: entry where
  \<open>config_example = file_entry ''metadata/config.json'' ''{"contentIDBase":"base"}''\<close>


definition broken_envelope_example :: entry where
  "broken_envelope_example = file_entry ''x/a.json'' ''{''"

definition envelope_example :: entry where
  "envelope_example = file_entry ''x/b%20c.json'' ''{}''"

text \<open>
  Eleven envelopes, and further entries for the examples: a Config entry and a Keep entry
  whose bodies are not JSON, and a Config entry and a Keep entry without the required key.
\<close>

definition eleven_envelopes :: "event list" where
  "eleven_envelopes =
     map (\<lambda>name. Entry (file_entry (''x/'' @ name @ ''.json'') ''{}''))
       [''a'', ''b'', ''c'', ''d'', ''e'', ''f'', ''g'', ''h'', ''i'', ''j'', ''k'']"

definition broken_config_example :: entry where
  "broken_config_example = file_entry ''metadata/config.json'' ''{''"

definition empty_config_example :: entry where
  "empty_config_example = file_entry ''metadata/config.json'' ''{}''"

definition broken_keep_example :: entry where
  "broken_keep_example = file_entry ''metadata/keep.json'' ''{''"

definition empty_keep_example :: entry where
  "empty_keep_example = file_entry ''metadata/keep.json'' ''{}''"

subsection \<open>Auxiliary notions of the proofs\<close>

text \<open>The effects that never ask the store to remove anything.\<close>

definition quiet :: "effect list \<Rightarrow> bool" where
  "quiet out = (\<forall>ids. RemoveEnvelopes ids \<notin> set out)"


definition calm :: "effect list \<Rightarrow> bool" where
  "calm out = (filter reconciling out = [])"

definition still :: "effect list \<Rightarrow> bool" where
  "still out = (filter begins out = [])"



section \<open>Properties\<close>

subsection \<open>What the callbacks of an entry can change\<close>

text \<open>
  Whatever holds between the states before and after each call of the callback, and is
  reflexive and transitive, holds across \<^verbatim>\<open>jsonFromStream\<close>; whatever set contains the
  effects of each call, and the uncaught exceptions, contains its effects.
\<close>

lemma jsonFromStream_rel:
  assumes refl: "\<And>s. R s s"
    and trans: "\<And>a b c. R a b \<Longrightarrow> R b c \<Longrightarrow> R a c"
    and cb: "\<And>r s. R s (fst (fst (callback r s)))"
  shows "R s (fst (jsonFromStream P sz callback evs chunks s))"
proof (induction evs arbitrary: chunks s)
  case Nil
  show ?case by (simp add: refl)
next
  case (Cons ev evs)
  have err: "R s (fst (call_with_error callback err s))" for err s
    using cb [of s "Inl err"]
    by (auto simp: call_with_error_def split: prod.splits option.splits)
  have fin: "R s (fst (on_stream_end P sz chunks callback s))" for chunks s
  proof (cases "materialize P sz chunks")
    case (Inl e)
    then show ?thesis using err by (simp add: on_stream_end_def)
  next
    case (Inr payload)
    show ?thesis
    proof (cases "callback (Inr payload) s")
      case (Pair r thrown)
      obtain s1 out1 where r: "r = (s1, out1)" by (cases r)
      have 1: "R s s1" using cb [of s "Inr payload"] Pair r by simp
      show ?thesis
      proof (cases thrown)
        case None
        then show ?thesis using Inr Pair r 1 by (simp add: on_stream_end_def)
      next
        case (Some e)
        have "R s1 (fst (call_with_error callback e s1))" by (rule err)
        with 1 have "R s (fst (call_with_error callback e s1))" by (rule trans)
        then show ?thesis using Inr Pair r Some
          by (simp add: on_stream_end_def case_prod_beta)
      qed
    qed
  qed
  show ?case
  proof (cases ev)
    case (Data chunk)
    then show ?thesis using Cons.IH by simp
  next
    case (StreamError e)
    have "R (fst (call_with_error callback e s))
            (fst (jsonFromStream P sz callback evs chunks (fst (call_with_error callback e s))))"
      by (rule Cons.IH)
    with err [of s e] have "R s (fst (jsonFromStream P sz callback evs chunks (fst (call_with_error callback e s))))"
      by (rule trans)
    then show ?thesis using StreamError by (simp add: case_prod_beta)
  next
    case StreamEnd
    have "R (fst (on_stream_end P sz chunks callback s))
            (fst (jsonFromStream P sz callback evs chunks (fst (on_stream_end P sz chunks callback s))))"
      by (rule Cons.IH)
    with fin [of s chunks] have "R s (fst (jsonFromStream P sz callback evs chunks (fst (on_stream_end P sz chunks callback s))))"
      by (rule trans)
    then show ?thesis using StreamEnd by (simp add: case_prod_beta)
  qed
qed

lemma jsonFromStream_effects:
  assumes cb: "\<And>r s. set (snd (fst (callback r s))) \<subseteq> A"
    and un: "\<And>e. Uncaught e \<in> A"
  shows "set (snd (jsonFromStream P sz callback evs chunks s)) \<subseteq> A"
proof (induction evs arbitrary: chunks s)
  case Nil
  show ?case by simp
next
  case (Cons ev evs)
  have err: "set (snd (call_with_error callback err s)) \<subseteq> A" for err s
    using cb [of "Inl err" s] un
    by (auto simp: call_with_error_def split: prod.splits option.splits)
  have fin: "set (snd (on_stream_end P sz chunks callback s)) \<subseteq> A" for chunks s
  proof (cases "materialize P sz chunks")
    case (Inl e)
    then show ?thesis using err by (simp add: on_stream_end_def)
  next
    case (Inr payload)
    show ?thesis
    proof (cases "callback (Inr payload) s")
      case (Pair r thrown)
      obtain s1 out1 where r: "r = (s1, out1)" by (cases r)
      have 1: "set out1 \<subseteq> A" using cb [of "Inr payload" s] Pair r by simp
      show ?thesis
      proof (cases thrown)
        case None
        then show ?thesis using Inr Pair r 1 by (simp add: on_stream_end_def)
      next
        case (Some e)
        have "set (snd (call_with_error callback e s1)) \<subseteq> A" by (rule err)
        then show ?thesis using Inr Pair r Some 1
          by (simp add: on_stream_end_def case_prod_beta)
      qed
    qed
  qed
  show ?case
  proof (cases ev)
    case (Data chunk)
    then show ?thesis using Cons.IH by simp
  next
    case (StreamError e)
    then show ?thesis using err [of e s] Cons.IH
      by (simp add: case_prod_beta)
  next
    case StreamEnd
    then show ?thesis using fin [of chunks s] Cons.IH
      by (simp add: case_prod_beta)
  qed
qed


lemma quiet_simps [simp]:
  "quiet []"
  "quiet (x # out) = ((\<forall>ids. x \<noteq> RemoveEnvelopes ids) \<and> quiet out)"
  "quiet (out @ out') = (quiet out \<and> quiet out')"
  by (auto simp: quiet_def)

lemma quiet_subset: "quiet out = (set out \<subseteq> {x. \<forall>ids. x \<noteq> RemoveEnvelopes ids})"
  by (auto simp: quiet_def)

lemma quiet_reportError [simp]: "quiet (reportError err p d fatal)"
  by (simp add: reportError_def)

lemma quiet_reportCompletion [simp]: "quiet (reportCompletion s)"
  by (simp add: reportCompletion_def)

lemma quiet_finish_callback [simp]: "quiet (finish_callback err s)"
  by (simp add: finish_callback_def split: option.splits)

lemma set_true_mono: "obj \<subseteq> set_true obj k"
  by (auto simp: set_true_def)

lemma kept_set_true: "kept (set_true obj k) k"
  by (simp add: kept_def set_true_def Object_prototype_def)

lemma kept_mono: "obj \<subseteq> obj' \<Longrightarrow> kept obj k \<Longrightarrow> kept obj' k"
  by (auto simp: kept_def)

lemma keep_forEach_frame:
  "toKeep s \<subseteq> toKeep (fst (fst (keep_forEach ids s))) \<and> snd (fst (keep_forEach ids s)) = []"
proof (induction ids arbitrary: s)
  case Nil
  show ?case by simp
next
  case (Cons v vs)
  show ?case
  proof (cases "to_key v")
    case (Inl e)
    then show ?thesis by simp
  next
    case (Inr k)
    have "toKeep s \<subseteq> toKeep (s\<lparr>toKeep := set_true (toKeep s) k\<rparr>)"
      using set_true_mono by simp
    with Cons [of "s\<lparr>toKeep := set_true (toKeep s) k\<rparr>"] Inr show ?thesis
      by auto
  qed
qed

lemma config_callback_frame:
  "toKeep (fst (fst (config_callback p r s))) = toKeep s \<and> quiet (snd (fst (config_callback p r s)))"
  by (simp add: config_callback_def split: sum.splits)

lemma keep_callback_frame:
  "toKeep s \<subseteq> toKeep (fst (fst (keep_callback p r s))) \<and> quiet (snd (fst (keep_callback p r s)))"
  using keep_forEach_frame
  by (simp add: keep_callback_def split: sum.splits option.splits json.splits)

lemma envelope_callback_frame:
  "toKeep (fst (fst (envelope_callback p cid r s))) = toKeep s
   \<and> quiet (snd (fst (envelope_callback p cid r s)))"
  by (simp add: envelope_callback_def queue_push_def split: sum.splits)

lemma jsonFromStream_toKeep:
  assumes "\<And>r s. toKeep s \<subseteq> toKeep (fst (fst (callback r s)))"
  shows "toKeep s \<subseteq> toKeep (fst (jsonFromStream P sz callback evs chunks s))"
proof (rule jsonFromStream_rel [where R = "\<lambda>a b. toKeep a \<subseteq> toKeep b"])
  show "toKeep a \<subseteq> toKeep b \<Longrightarrow> toKeep b \<subseteq> toKeep c \<Longrightarrow> toKeep a \<subseteq> toKeep c" for a b c :: state
    by (rule order_trans)
qed (simp_all add: assms)

lemma jsonFromStream_quiet:
  assumes "\<And>r s. quiet (snd (fst (callback r s)))"
  shows "quiet (snd (jsonFromStream P sz callback evs chunks s))"
  unfolding quiet_subset
  by (rule jsonFromStream_effects) (use assms in \<open>auto simp: quiet_subset\<close>)

lemma handleConfigEntry_frame:
  "toKeep s \<subseteq> toKeep (fst (handleConfigEntry P e s)) \<and> quiet (snd (handleConfigEntry P e s))"
  unfolding handleConfigEntry_def
  by (intro conjI jsonFromStream_toKeep jsonFromStream_quiet) (simp_all add: config_callback_frame)

lemma handleKeepEntry_frame:
  "toKeep s \<subseteq> toKeep (fst (handleKeepEntry P e s)) \<and> quiet (snd (handleKeepEntry P e s))"
  unfolding handleKeepEntry_def
  by (intro conjI jsonFromStream_toKeep jsonFromStream_quiet) (simp_all add: keep_callback_frame)

lemma envelope_stream_frame:
  "toKeep s \<subseteq> toKeep (fst (jsonFromStream P sz (envelope_callback p cid) evs chunks s))
   \<and> quiet (snd (jsonFromStream P sz (envelope_callback p cid) evs chunks s))"
  by (intro conjI jsonFromStream_toKeep jsonFromStream_quiet) (simp_all add: envelope_callback_frame)

lemma handleEnvelopeEntry_frame:
  "toKeep s \<subseteq> toKeep (fst (handleEnvelopeEntry P e s)) \<and> quiet (snd (handleEnvelopeEntry P e s))"
proof (cases "decodeURIComponent (basename_ext (path e) ''.json'')")
  case None
  then show ?thesis by (simp add: handleEnvelopeEntry_def)
next
  case (Some cid)
  have "toKeep s \<subseteq> toKeep (s\<lparr>toKeep := set_true (toKeep s) cid\<rparr>)"
    using set_true_mono by simp
  with envelope_stream_frame [of "s\<lparr>toKeep := set_true (toKeep s) cid\<rparr>" P "stream_size e" "path e" cid "stream e" "[]"]
  show ?thesis using Some by (auto simp: handleEnvelopeEntry_def)
qed

lemma on_entry_frame:
  "toKeep s \<subseteq> toKeep (fst (on_entry P e s)) \<and> quiet (snd (on_entry P e s))"
  using handleConfigEntry_frame [of s P e] handleKeepEntry_frame [of s P e]
    handleEnvelopeEntry_frame [of s P e]
  by (simp add: on_entry_def emit_def Let_def)

lemma process_loop_quiet: "quiet (snd (snd (process_loop waiting running)))"
  by (induction waiting running rule: process_loop.induct)
     (simp_all add: envelopeWorker_def case_prod_beta)

lemma queue_process_frame:
  "toKeep (fst (queue_process s)) = toKeep s \<and> quiet (snd (queue_process s))"
  using process_loop_quiet [of "tasks s" "workers s"]
  by (simp add: queue_process_def case_prod_beta)

lemma finishRequest_frame:
  "toKeep (fst (finishRequest s)) = toKeep s \<and> quiet (snd (finishRequest s))"
  by (simp add: finishRequest_def removeDeletedContent_def split: option.splits)

lemma queue_next_frame:
  "toKeep (fst (queue_next i s)) = toKeep s \<and> quiet (snd (queue_next i s))"
  using queue_process_frame finishRequest_frame
  by (simp add: queue_next_def case_prod_beta Let_def)

lemma on_store_done_frame:
  "toKeep (fst (on_store_done i err s)) = toKeep s \<and> quiet (snd (on_store_done i err s))"
  using queue_next_frame
  by (simp add: on_store_done_def case_prod_beta split: option.splits)

lemma step_toKeep: "toKeep s \<subseteq> toKeep (fst (step P s ev))"
proof (cases ev)
  case (Entry e)
  then show ?thesis using on_entry_frame by simp
next
  case (ListPage page)
  then show ?thesis
    by (simp add: on_list_page_def Let_def split: option.splits sum.splits)
next
  case (StoreDone i err)
  then show ?thesis using on_store_done_frame by simp
qed (simp_all add: on_parse_error_def on_parse_end_def finishRequest_frame on_immediate_def
      queue_process_frame on_remove_done_def Let_def split: option.splits)

lemma step_removes:
  assumes "RemoveEnvelopes ids \<in> set (snd (step P s ev))"
  shows "\<forall>id \<in> set ids. \<not> kept (toKeep s) id"
proof (cases ev)
  case (Entry e)
  then show ?thesis using on_entry_frame [of s P e] assms by (simp add: quiet_def)
next
  case (ListPage page)
  then show ?thesis using assms
    by (auto simp: on_list_page_def Let_def finish_callback_def reportError_def reportCompletion_def
        split: option.splits sum.splits if_splits)
next
  case (StoreDone i err)
  then show ?thesis using on_store_done_frame [of i err s] assms by (simp add: quiet_def)
next
  case (ParseError err)
  then show ?thesis using assms by (simp add: on_parse_error_def)
next
  case ParseEnd
  then show ?thesis using assms finishRequest_frame [of s]
    by (simp add: on_parse_end_def quiet_def split: if_splits)
next
  case Immediate
  then show ?thesis using assms queue_process_frame [of "s\<lparr>scheduled := scheduled s - 1\<rparr>"]
    by (simp add: on_immediate_def quiet_def split: if_splits)
next
  case (RemoveDone err)
  then show ?thesis using assms quiet_finish_callback
    by (auto simp: on_remove_done_def Let_def quiet_def split: if_splits option.splits)
qed

lemma run_toKeep: "toKeep s \<subseteq> toKeep (fst (run P s evs))"
proof (induction evs arbitrary: s)
  case Nil
  show ?case by simp
next
  case (Cons ev evs)
  have "toKeep s \<subseteq> toKeep (fst (step P s ev))" by (rule step_toKeep)
  also have "\<dots> \<subseteq> toKeep (fst (run P (fst (step P s ev)) evs))" by (rule Cons.IH)
  finally show ?case by (simp add: case_prod_beta)
qed

lemma run_removes:
  assumes "kept (toKeep s) k" and "RemoveEnvelopes ids \<in> set (snd (run P s evs))"
  shows "k \<notin> set ids"
  using assms
proof (induction evs arbitrary: s)
  case Nil
  then show ?case by simp
next
  case (Cons ev evs)
  from Cons.prems(2) consider
    (now) "RemoveEnvelopes ids \<in> set (snd (step P s ev))"
    | (later) "RemoveEnvelopes ids \<in> set (snd (run P (fst (step P s ev)) evs))"
    by (auto simp: case_prod_beta)
  then show ?case
  proof cases
    case now
    then have "\<forall>id \<in> set ids. \<not> kept (toKeep s) id" by (rule step_removes)
    with Cons.prems(1) show ?thesis by auto
  next
    case later
    have "kept (toKeep (fst (step P s ev))) k"
      using step_toKeep Cons.prems(1) by (rule kept_mono)
    then show ?thesis using later by (rule Cons.IH)
  qed
qed



lemma on_entry_quiet_run:
  "RemoveEnvelopes ids \<in> set (snd (run P s (Entry e # evs))) \<Longrightarrow>
   RemoveEnvelopes ids \<in> set (snd (run P (fst (on_entry P e s)) evs))"
  using on_entry_frame [of s P e] by (auto simp: case_prod_beta quiet_def)

lemma on_entry_envelope:
  assumes "etype e = File"
    and "parent_name (path e) \<noteq> ''metadata''"
    and "endsWith (basename (path e)) ''.json''"
  shows "on_entry P e s = emit [Log Ldebug ''Received entry for path''] (handleEnvelopeEntry P e s)"
  using assms by (simp add: on_entry_def parent_name_def Let_def)

subsection \<open>The keep-set and the delete set\<close>

text \<open>
  Claim C2. Let a file entry be dispatched to \<^verbatim>\<open>handleEnvelopeEntry\<close> (its parent
  directory is not \<^verbatim>\<open>metadata\<close> and its base name ends in \<^verbatim>\<open>.json\<close>), and let its
  content ID be the percent-decoding of \<^verbatim>\<open>path.basename(entry.path, '.json')\<close>. The handler has
  put the ID into \<^verbatim>\<open>toKeep\<close> before the stream of the entry has emitted anything; the ID
  is kept whatever the stream emits afterwards, also when the JSON does not parse; and in
  every continuation of the request, whatever the outcome of the storage of the envelope,
  no call of \<^verbatim>\<open>removeEnvelopes\<close> has the ID among the IDs to delete.
\<close>

theorem envelope_id_kept:
  assumes "etype e = File"
    and "parent_name (path e) \<noteq> ''metadata''"
    and "endsWith (basename (path e)) ''.json''"
    and "decodeURIComponent (basename_ext (path e) ''.json'') = Some contentID"
  shows "toKeep (fst (on_entry P (e\<lparr>stream := []\<rparr>) s)) = set_true (toKeep s) contentID
    \<and> kept (toKeep (fst (on_entry P e s))) contentID
    \<and> (\<forall>evs ids. RemoveEnvelopes ids \<in> set (snd (run P s (Entry e # evs)))
          \<longrightarrow> contentID \<notin> set ids)"
proof (intro conjI allI impI)
  show "toKeep (fst (on_entry P (e\<lparr>stream := []\<rparr>) s)) = set_true (toKeep s) contentID"
    using assms by (simp add: on_entry_def parent_name_def Let_def emit_def handleEnvelopeEntry_def)
  have "on_entry P e s = emit [Log Ldebug ''Received entry for path'']
          (jsonFromStream P (stream_size e) (envelope_callback (path e) contentID) (stream e) []
             (s\<lparr>toKeep := set_true (toKeep s) contentID\<rparr>))"
    using assms by (simp add: on_entry_envelope handleEnvelopeEntry_def)
  moreover have "toKeep (s\<lparr>toKeep := set_true (toKeep s) contentID\<rparr>)
      \<subseteq> toKeep (fst (jsonFromStream P (stream_size e) (envelope_callback (path e) contentID)
            (stream e) [] (s\<lparr>toKeep := set_true (toKeep s) contentID\<rparr>)))"
    using envelope_stream_frame by blast
  ultimately have "set_true (toKeep s) contentID \<subseteq> toKeep (fst (on_entry P e s))"
    by (simp add: emit_def)
  then show k: "kept (toKeep (fst (on_entry P e s))) contentID"
    using kept_set_true by (rule kept_mono)
  fix evs ids
  assume "RemoveEnvelopes ids \<in> set (snd (run P s (Entry e # evs)))"
  then have "RemoveEnvelopes ids \<in> set (snd (run P (fst (on_entry P e s)) evs))"
    by (rule on_entry_quiet_run)
  with k show "contentID \<notin> set ids" by (rule run_removes)
qed

text \<open>
  The envelope \<^verbatim>\<open>x/a.json\<close> does not parse, which is counted as a failure; the store
  lists \<^verbatim>\<open>a\<close> and \<^verbatim>\<open>b\<close> under the base, and only \<^verbatim>\<open>b\<close> is removed. The envelope
  \<^verbatim>\<open>x/b%20c.json\<close> parses and its put fails, which is counted as a failure; the store
  lists \<^verbatim>\<open>b c\<close> and \<^verbatim>\<open>z\<close>, and only \<^verbatim>\<open>z\<close> is removed.
\<close>

theorem envelope_id_kept_witness:
  "etype broken_envelope_example = File
   \<and> parent_name (path broken_envelope_example) \<noteq> ''metadata''
   \<and> endsWith (basename (path broken_envelope_example)) ''.json''
   \<and> decodeURIComponent (basename_ext (path broken_envelope_example) ''.json'') = Some ''a''
   \<and> failureCount (fst (run parse_examples initial
        [Entry broken_envelope_example, Entry config_example, ParseEnd,
         ListPage (Inr [''a'', ''b'']), ListPage (Inr [])])) = 1
   \<and> RemoveEnvelopes [''b''] \<in> set (snd (run parse_examples initial
        [Entry broken_envelope_example, Entry config_example, ParseEnd,
         ListPage (Inr [''a'', ''b'']), ListPage (Inr [])]))
   \<and> ''a'' \<notin> set [''b'']
   \<and> decodeURIComponent (basename_ext (path envelope_example) ''.json'') = Some ''b c''
   \<and> failureCount (fst (run parse_examples initial
        [Entry envelope_example, Entry config_example, Immediate,
         StoreDone 0 (Some (Error ''put failed'')), ParseEnd,
         ListPage (Inr [''b c'', ''z'']), ListPage (Inr [])])) = 1
   \<and> RemoveEnvelopes [''z''] \<in> set (snd (run parse_examples initial
        [Entry envelope_example, Entry config_example, Immediate,
         StoreDone 0 (Some (Error ''put failed'')), ParseEnd,
         ListPage (Inr [''b c'', ''z'']), ListPage (Inr [])]))
   \<and> ''b c'' \<notin> set [''z'']"
proof -
  have 1: "etype broken_envelope_example = File"
    by (simp add: broken_envelope_example_def file_entry_def)
  have 2: "parent_name (path broken_envelope_example) \<noteq> ''metadata''"
    by code_simp
  have 3: "endsWith (basename (path broken_envelope_example)) ''.json''"
    by code_simp
  have 4: "decodeURIComponent (basename_ext (path broken_envelope_example) ''.json'') = Some ''a''"
    by code_simp
  have 5: "failureCount (fst (run parse_examples initial
        [Entry broken_envelope_example, Entry config_example, ParseEnd,
         ListPage (Inr [''a'', ''b'']), ListPage (Inr [])])) = 1"
    by code_simp
  have 6: "RemoveEnvelopes [''b''] \<in> set (snd (run parse_examples initial
        [Entry broken_envelope_example, Entry config_example, ParseEnd,
         ListPage (Inr [''a'', ''b'']), ListPage (Inr [])]))"
    by code_simp
  have 7: "''a'' \<notin> set [''b'']"
    by (rule envelope_id_kept [OF 1 2 3 4, THEN conjunct2, THEN conjunct2, THEN spec, THEN spec,
          THEN mp, OF 6])
  have 8: "etype envelope_example = File"
    by (simp add: envelope_example_def file_entry_def)
  have 9: "parent_name (path envelope_example) \<noteq> ''metadata''"
    by code_simp
  have 10: "endsWith (basename (path envelope_example)) ''.json''"
    by code_simp
  have 11: "decodeURIComponent (basename_ext (path envelope_example) ''.json'') = Some ''b c''"
    by code_simp
  have 12: "failureCount (fst (run parse_examples initial
        [Entry envelope_example, Entry config_example, Immediate,
         StoreDone 0 (Some (Error ''put failed'')), ParseEnd,
         ListPage (Inr [''b c'', ''z'']), ListPage (Inr [])])) = 1"
    by code_simp
  have 13: "RemoveEnvelopes [''z''] \<in> set (snd (run parse_examples initial
        [Entry envelope_example, Entry config_example, Immediate,
         StoreDone 0 (Some (Error ''put failed'')), ParseEnd,
         ListPage (Inr [''b c'', ''z'']), ListPage (Inr [])]))"
    by code_simp
  have 14: "''b c'' \<notin> set [''z'']"
    by (rule envelope_id_kept [OF 8 9 10 11, THEN conjunct2, THEN conjunct2, THEN spec, THEN spec,
          THEN mp, OF 13])
  from 1 2 3 4 5 6 7 11 12 13 14 show ?thesis by (intro conjI)
qed

text \<open>
  Claim C10. A content ID that is the name of a property of \<^verbatim>\<open>Object.prototype\<close>, such
  as \<^verbatim>\<open>constructor\<close> or \<^verbatim>\<open>toString\<close>, passes the membership test \<^verbatim>\<open>toKeep[id]\<close> on the
  object the request starts with, to which no entry has added anything; and from every
  state and in every continuation of the request, no call of \<^verbatim>\<open>removeEnvelopes\<close> has
  such an ID among the IDs to delete.
\<close>

theorem prototype_names_kept:
  assumes "k \<in> set Object_prototype"
  shows "kept (toKeep initial) k
    \<and> (\<forall>ids. RemoveEnvelopes ids \<in> set (snd (run P s evs)) \<longrightarrow> k \<notin> set ids)"
proof (intro conjI allI impI)
  show "kept (toKeep initial) k"
    using assms by (simp add: kept_def)
  fix ids
  assume "RemoveEnvelopes ids \<in> set (snd (run P s evs))"
  moreover have "kept (toKeep s) k"
    using assms by (simp add: kept_def)
  ultimately show "k \<notin> set ids"
    using run_removes by blast
qed

text \<open>
  The batch holds nothing but the Config entry; the store lists \<^verbatim>\<open>constructor\<close> and
  \<^verbatim>\<open>b\<close> under the base, and only \<^verbatim>\<open>b\<close> is removed.
\<close>

theorem prototype_names_kept_witness:
  "''constructor'' \<in> set Object_prototype
   \<and> toKeep (fst (run parse_examples initial [Entry config_example, ParseEnd])) = {}
   \<and> kept (toKeep initial) ''constructor''
   \<and> RemoveEnvelopes [''b''] \<in> set (snd (run parse_examples initial
        [Entry config_example, ParseEnd, ListPage (Inr [''constructor'', ''b'']),
         ListPage (Inr [])]))
   \<and> ''constructor'' \<notin> set [''b'']"
proof -
  have 1: "''constructor'' \<in> set Object_prototype"
    by (simp add: Object_prototype_def)
  have 2: "toKeep (fst (run parse_examples initial [Entry config_example, ParseEnd])) = {}"
    by code_simp
  have 3: "RemoveEnvelopes [''b''] \<in> set (snd (run parse_examples initial
        [Entry config_example, ParseEnd, ListPage (Inr [''constructor'', ''b'']),
         ListPage (Inr [])]))"
    by code_simp
  from prototype_names_kept [OF 1, of parse_examples initial
      "[Entry config_example, ParseEnd, ListPage (Inr [''constructor'', ''b'']), ListPage (Inr [])]"] 3
  have "kept (toKeep initial) ''constructor''" and "''constructor'' \<notin> set [''b'']"
    by blast+
  with 1 2 3 show ?thesis by blast
qed


subsection \<open>The classification of the entries\<close>

text \<open>
  The loop of \<^verbatim>\<open>path.basename(p, '.json')\<close> on a path whose base name ends with \<^verbatim>\<open>.json\<close>:
  it passes the trailing slashes, matches the five characters of the suffix, passes the
  rest of the base name and stops at the slash before it, or at the start of the path.
\<close>

lemma suffix_scan_slashes:
  "\<forall>c \<in> set t. c = sep \<Longrightarrow>
   suffix_scan (t @ rest) ext e True x f = suffix_scan rest ext e True x f"
  by (induction t) (simp_all add: Let_def)

lemma suffix_scan_json:
  "suffix_scan (CHR ''n'' # CHR ''o'' # CHR ''s'' # CHR ''j'' # CHR ''.'' # rest) ''.json'' (- 1) True 4 (- 1)
   = suffix_scan rest ''.json'' (int (length rest)) False (- 1) (int (length rest) + 5)"
  by (simp add: sep_def Let_def add.commute)

lemma suffix_scan_name:
  "\<forall>c \<in> set g. c \<noteq> sep \<Longrightarrow> f \<noteq> - 1 \<Longrightarrow>
   suffix_scan (g @ d) ext e False (- 1) f = suffix_scan d ext e False (- 1) f"
  by (induction g) (simp_all add: Let_def)

lemma suffix_scan_dir:
  "d = [] \<or> hd d = sep \<Longrightarrow> suffix_scan d ext e False x f = (int (length d), e, f)"
  by (cases d) (simp_all add: Let_def)

lemma basename_ext_parts:
  assumes t: "\<forall>c \<in> set t. c = sep"
    and g: "\<forall>c \<in> set g. c \<noteq> sep"
    and d: "d = [] \<or> last d = sep"
    and p: "p = d @ g @ ''.json'' @ t"
  shows "basename_ext p ''.json'' = (if p = ''.json'' then [] else if g = [] then ''.json'' else g)"
proof -
  have r: "rev p = rev t @ CHR ''n'' # CHR ''o'' # CHR ''s'' # CHR ''j'' # CHR ''.'' # (rev g @ rev d)"
    by (simp add: p)
  have t': "\<forall>c \<in> set (rev t). c = sep"
    using t by simp
  have g': "\<forall>c \<in> set (rev g). c \<noteq> sep"
    using g by simp
  have d': "rev d = [] \<or> hd (rev d) = sep"
    using d by (auto simp add: hd_rev)
  have "suffix_scan (rev p) ''.json'' (- 1) True 4 (- 1)
        = suffix_scan (rev g @ rev d) ''.json'' (int (length (rev g @ rev d))) False (- 1)
            (int (length (rev g @ rev d)) + 5)"
    unfolding r suffix_scan_slashes [OF t'] by (rule suffix_scan_json)
  also have "\<dots> = suffix_scan (rev d) ''.json'' (int (length (rev g @ rev d))) False (- 1)
            (int (length (rev g @ rev d)) + 5)"
    by (rule suffix_scan_name [OF g']) simp
  also have "\<dots> = (int (length d), int (length d + length g), int (length d + length g) + 5)"
    using suffix_scan_dir [OF d'] by (simp add: add.commute)
  finally have scan: "suffix_scan (rev p) ''.json'' (- 1) True 4 (- 1)
        = (int (length d), int (length d + length g), int (length d + length g) + 5)" .
  have len: "length p = length d + length g + 5 + length t"
    by (simp add: p)
  have whole: "slice p (int (length d)) (int (length d + length g) + 5) = g @ ''.json''"
    by (simp add: slice_def Let_def p nat_add_distrib)
  have stem: "slice p (int (length d)) (int (length d + length g)) = g"
    by (simp add: slice_def Let_def p)
  show ?thesis
  proof (cases "p = ''.json''")
    case True
    then show ?thesis
      by (simp add: basename_ext_def)
  next
    case False
    then have ne: "''.json'' \<noteq> p"
      by auto
    show ?thesis
    proof (cases "g = []")
      case True
      with whole have "slice p (int (length d)) (int (length d) + 5) = ''.json''"
        by simp
      with True False ne show ?thesis
        by (simp add: basename_ext_def scan len)
    next
      case False
      with stem \<open>p \<noteq> ''.json''\<close> ne show ?thesis
        by (simp add: basename_ext_def scan len)
    qed
  qed
qed

lemma path_parts:
  obtains d t where "p = d @ basename p @ t" and "\<forall>c \<in> set t. c = sep"
    and "\<forall>c \<in> set (basename p). c \<noteq> sep" and "d = [] \<or> last d = sep"
proof
  let ?q = "dropWhile (\<lambda>c. c = sep) (rev p)"
  let ?t = "rev (takeWhile (\<lambda>c. c = sep) (rev p))"
  let ?d = "rev (dropWhile (\<lambda>c. c \<noteq> sep) ?q)"
  have e: "takeWhile (\<lambda>c. c = sep) (rev p)
             @ takeWhile (\<lambda>c. c \<noteq> sep) ?q @ dropWhile (\<lambda>c. c \<noteq> sep) ?q = rev p"
    by simp
  have "rev (takeWhile (\<lambda>c. c = sep) (rev p)
             @ takeWhile (\<lambda>c. c \<noteq> sep) ?q @ dropWhile (\<lambda>c. c \<noteq> sep) ?q) = p"
    unfolding e by simp
  then have "rev (dropWhile (\<lambda>c. c \<noteq> sep) ?q) @ rev (takeWhile (\<lambda>c. c \<noteq> sep) ?q)
             @ rev (takeWhile (\<lambda>c. c = sep) (rev p)) = p"
    by (simp only: rev_append append_assoc)
  then show "p = ?d @ basename p @ ?t"
    by (simp only: basename_def strip_trailing_sep_def rev_rev_ident)
  show "\<forall>c \<in> set ?t. c = sep"
    by (auto dest: set_takeWhileD)
  show "\<forall>c \<in> set (basename p). c \<noteq> sep"
    by (auto simp add: basename_def dest: set_takeWhileD)
  show "?d = [] \<or> last ?d = sep"
    using hd_dropWhile [of "\<lambda>c. c \<noteq> sep" ?q] by (auto simp add: last_rev)
qed

lemma basename_ext_json:
  assumes "endsWith (basename p) ''.json''"
  shows "basename_ext p ''.json'' = envelope_name p"
proof -
  obtain d t where p: "p = d @ basename p @ t" and t: "\<forall>c \<in> set t. c = sep"
    and b: "\<forall>c \<in> set (basename p). c \<noteq> sep" and d: "d = [] \<or> last d = sep"
    by (rule path_parts)
  define g where "g = take (length (basename p) - length ''.json'') (basename p)"
  from assms have base: "basename p = g @ ''.json''"
    unfolding endsWith_def g_def by (metis append_take_drop_id)
  from b have g: "\<forall>c \<in> set g. c \<noteq> sep"
    by (simp add: base)
  from p have p': "p = d @ g @ ''.json'' @ t"
    by (simp add: base)
  have "basename_ext p ''.json'' = (if p = ''.json'' then [] else if g = [] then ''.json'' else g)"
    by (rule basename_ext_parts [OF t g d p'])
  also have "\<dots> = envelope_name p"
  proof (cases "g = []")
    case True
    then show ?thesis
      by (simp add: envelope_name_def Let_def base)
  next
    case False
    with p' have "length p > 5"
      by (cases g) simp_all
    then have "p \<noteq> ''.json''"
      by auto
    with False show ?thesis
      by (simp add: envelope_name_def Let_def base)
  qed
  finally show ?thesis .
qed




lemma on_entry_config:
  assumes "etype e = File" and "classify (path e) = Config"
  shows "on_entry P e s = emit [Log Ldebug ''Received entry for path''] (handleConfigEntry P e s)"
  using assms
  by (simp add: on_entry_def classify_def parent_name_def Let_def split: if_splits)

lemma on_entry_keep:
  assumes "etype e = File" and "classify (path e) = Keep"
  shows "on_entry P e s = emit [Log Ldebug ''Received entry for path''] (handleKeepEntry P e s)"
  using assms
  by (simp add: on_entry_def classify_def parent_name_def Let_def split: if_splits)

lemma on_entry_envelope_id:
  assumes "etype e = File" and "classify_by_name (path e) = Envelope (Some contentID)"
  shows "on_entry P e s = emit [Log Ldebug ''Received entry for path'']
     (jsonFromStream P (stream_size e) (envelope_callback (path e) contentID)
        (stream e) [] (s\<lparr>toKeep := set_true (toKeep s) contentID\<rparr>))"
proof -
  from assms(2) have 1: "parent_name (path e) \<noteq> ''metadata''"
    and 2: "endsWith (basename (path e)) ''.json''"
    and 3: "decodeURIComponent (envelope_name (path e)) = Some contentID"
    by (simp_all add: classify_by_name_def split: if_splits)
  from 2 3 have "decodeURIComponent (basename_ext (path e) ''.json'') = Some contentID"
    by (simp add: basename_ext_json)
  then show ?thesis using assms(1) 1 2
    by (simp add: on_entry_envelope handleEnvelopeEntry_def)
qed

subsection \<open>The JSON materializer\<close>

lemma jsonFromStream_chunks:
  "jsonFromStream P sz callback (map Data chunks @ evs) acc s =
   jsonFromStream P sz callback evs (acc @ chunks) s"
  by (induction chunks arbitrary: acc) simp_all

lemma jsonFromStream_to_end:
  "jsonFromStream P sz callback (map Data chunks @ [StreamEnd]) [] s =
   on_stream_end P sz chunks callback s"
  by (simp add: jsonFromStream_chunks case_prod_beta)

lemma Buffer_concat_long:
  "n \<le> length (concat chunks) \<Longrightarrow> Buffer_concat chunks (Some n) = take n (concat chunks)"
  by (cases "chunks = []") (simp_all add: Buffer_concat_def)

lemma Buffer_concat_short:
  assumes "length (concat chunks) < n"
  shows "Buffer_concat chunks (Some n) = [] \<or> CHR 0x00 \<in> set (Buffer_concat chunks (Some n))"
proof (cases "chunks = []")
  case True
  then show ?thesis by (simp add: Buffer_concat_def)
next
  case False
  from assms have "n - length (concat chunks) \<noteq> 0" by simp
  then have "CHR 0x00 \<in> set (replicate (n - length (concat chunks)) (CHR 0x00))"
    by simp
  then show ?thesis using False by (simp add: Buffer_concat_def)
qed

lemma parse_examples_strict:
  "parse_examples [] = None \<and> (\<forall>t. CHR 0x00 \<in> set t \<longrightarrow> parse_examples t = None)"
  by (auto simp: parse_examples_def)

text \<open>
  Claim C6 fails as it is stated. The stream of the entry \<^verbatim>\<open>x/a.json\<close> delivers the four
  octets \<^verbatim>\<open>{}xx\<close> while the header announces two: \<^verbatim>\<open>Buffer.concat\<close> cuts the octets off
  after the second, the rest parses, and the envelope is pushed for storage.
\<close>

theorem materialize_counterexample:
  "materialize parse_examples (Some 2) [''{}xx''] = Inr (JObject [])
   \<and> length (concat [''{}xx'']) = 4
   \<and> tasks (fst (on_entry parse_examples
        \<lparr>path = ''x/a.json'', etype = File, stream_size = Some 2,
         stream = [Data ''{}xx'', StreamEnd]\<rparr> initial)) = [(''a'', JObject [])]"
  by code_simp

text \<open>
  Claim C6, amended. When the codec announces the size \<open>n\<close>, the materializer parses
  exactly \<open>n\<close> octets. If the stream delivered at least \<open>n\<close> octets, these are the first
  \<open>n\<close> of them, and the result is their parsed value or the parse error: what the stream
  delivered beyond \<open>n\<close> is dropped without notice. If the stream delivered fewer, the
  materializer fails, \<^verbatim>\<open>JSON.parse\<close> accepting neither the empty text nor a text with a
  zero octet. At the end of the stream the callback receives that result, and at an error
  of the stream it receives the error (the callbacks of the handlers log it with the path
  of the entry).
\<close>

theorem materialize_announced_size:
  "(n \<le> length (concat chunks) \<longrightarrow>
      materialize P (Some n) chunks =
        (case P (take n (concat chunks)) of None \<Rightarrow> Inl SyntaxError | Some payload \<Rightarrow> Inr payload))
   \<and> (length (concat chunks) < n \<and> P [] = None \<and> (\<forall>t. CHR 0x00 \<in> set t \<longrightarrow> P t = None) \<longrightarrow>
      materialize P (Some n) chunks = Inl SyntaxError)
   \<and> (snd (callback (materialize P sz chunks) s) = None \<longrightarrow>
      jsonFromStream P sz callback (map Data chunks @ [StreamEnd]) [] s =
        fst (callback (materialize P sz chunks) s))
   \<and> (snd (callback (Inl err) s) = None \<longrightarrow>
      jsonFromStream P sz callback (map Data chunks @ [StreamError err]) [] s =
        fst (callback (Inl err) s))"
proof (intro conjI impI)
  assume "n \<le> length (concat chunks)"
  then show "materialize P (Some n) chunks =
        (case P (take n (concat chunks)) of None \<Rightarrow> Inl SyntaxError | Some payload \<Rightarrow> Inr payload)"
    by (simp add: materialize_def Buffer_concat_long)
next
  assume a: "length (concat chunks) < n \<and> P [] = None \<and> (\<forall>t. CHR 0x00 \<in> set t \<longrightarrow> P t = None)"
  then have "Buffer_concat chunks (Some n) = [] \<or> CHR 0x00 \<in> set (Buffer_concat chunks (Some n))"
    using Buffer_concat_short by blast
  with a have "P (Buffer_concat chunks (Some n)) = None" by auto
  then show "materialize P (Some n) chunks = Inl SyntaxError"
    by (simp add: materialize_def)
next
  assume "snd (callback (materialize P sz chunks) s) = None"
  then show "jsonFromStream P sz callback (map Data chunks @ [StreamEnd]) [] s =
        fst (callback (materialize P sz chunks) s)"
    by (cases "materialize P sz chunks"; cases "callback (materialize P sz chunks) s")
       (auto simp: jsonFromStream_to_end on_stream_end_def call_with_error_def)
next
  assume "snd (callback (Inl err) s) = None"
  then show "jsonFromStream P sz callback (map Data chunks @ [StreamError err]) [] s =
        fst (callback (Inl err) s)"
    by (cases "callback (Inl err) s")
       (auto simp: jsonFromStream_chunks call_with_error_def)
qed

theorem materialize_announced_size_witness:
  "2 \<le> length (concat [''{}xx''])
   \<and> materialize parse_examples (Some 2) [''{}xx''] = Inr (JObject [])
   \<and> length (concat [''{}'']) < 4
   \<and> materialize parse_examples (Some 4) [''{}''] = Inl SyntaxError
   \<and> failureCount (fst (jsonFromStream parse_examples (Some 4)
        (envelope_callback ''x/a.json'' ''a'') (map Data [''{}''] @ [StreamEnd]) [] initial)) = 1
   \<and> failureCount (fst (jsonFromStream parse_examples (Some 4)
        (envelope_callback ''x/a.json'' ''a'') (map Data [''{}''] @ [StreamError (Error ''read'')])
        [] initial)) = 1"
proof -
  have 1: "2 \<le> length (concat [''{}xx''])" and 3: "length (concat [''{}'']) < 4"
    by simp_all
  have "materialize parse_examples (Some 2) [''{}xx''] =
      (case parse_examples (take 2 (concat [''{}xx''])) of
         None \<Rightarrow> Inl SyntaxError | Some payload \<Rightarrow> Inr payload)"
    using materialize_announced_size [of 2 "[''{}xx'']" parse_examples] 1 by blast
  also have "\<dots> = Inr (JObject [])"
    by code_simp
  finally have 2: "materialize parse_examples (Some 2) [''{}xx''] = Inr (JObject [])" .
  have 4: "materialize parse_examples (Some 4) [''{}''] = Inl SyntaxError"
    using materialize_announced_size [of 4 "[''{}'']" parse_examples] 3 parse_examples_strict
    by blast
  have "snd (envelope_callback ''x/a.json'' ''a''
          (materialize parse_examples (Some 4) [''{}'']) initial) = None"
    by (simp add: 4 envelope_callback_def)
  then have "jsonFromStream parse_examples (Some 4) (envelope_callback ''x/a.json'' ''a'')
        (map Data [''{}''] @ [StreamEnd]) [] initial =
      fst (envelope_callback ''x/a.json'' ''a'' (materialize parse_examples (Some 4) [''{}'']) initial)"
    using materialize_announced_size
      [of 4 "[''{}'']" parse_examples "envelope_callback ''x/a.json'' ''a''" "Some 4" initial]
    by blast
  then have 5: "failureCount (fst (jsonFromStream parse_examples (Some 4)
        (envelope_callback ''x/a.json'' ''a'') (map Data [''{}''] @ [StreamEnd]) [] initial)) = 1"
    by (simp add: 4 envelope_callback_def initial_def)
  have "snd (envelope_callback ''x/a.json'' ''a'' (Inl (Error ''read'')) initial) = None"
    by (simp add: envelope_callback_def)
  then have "jsonFromStream parse_examples (Some 4) (envelope_callback ''x/a.json'' ''a'')
        (map Data [''{}''] @ [StreamError (Error ''read'')]) [] initial =
      fst (envelope_callback ''x/a.json'' ''a'' (Inl (Error ''read'')) initial)"
    using materialize_announced_size
      [of 4 "[''{}'']" parse_examples "envelope_callback ''x/a.json'' ''a''" "Some 4" initial
          "Error ''read''"]
    by blast
  then have 6: "failureCount (fst (jsonFromStream parse_examples (Some 4)
        (envelope_callback ''x/a.json'' ''a'') (map Data [''{}''] @ [StreamError (Error ''read'')])
        [] initial)) = 1"
    by (simp add: envelope_callback_def initial_def)
  from 1 2 3 4 5 6 show ?thesis by blast
qed

subsection \<open>Errors of single entries\<close>

text \<open>
  Claim C8. Let a file entry deliver its chunks and end. If it is an envelope and its
  JSON does not parse, the failure is logged as a warning with the path of the entry,
  \<^verbatim>\<open>failureCount\<close> grows by one, and the remaining events are handled from the state that
  differs in nothing else but the kept ID. If it is the Config or the Keep entry and its
  JSON does not parse, or the parsed value lacks a truthy \<^verbatim>\<open>contentIDBase\<close> or \<^verbatim>\<open>keep\<close>,
  the problem is logged as a warning and the remaining events are handled from the very
  same state: no counter has changed. In no case is the request answered.
\<close>

theorem entry_errors_not_fatal:
  assumes "etype e = File" and "stream e = map Data chunks @ [StreamEnd]"
  shows
    "(classify_by_name (path e) = Envelope (Some contentID) \<and> materialize P (stream_size e) chunks = Inl err
        \<longrightarrow> run P s (Entry e # evs) =
          emit [Log Ldebug ''Received entry for path'',
                LogProblem Lwarn ''Bulk upload problem: parsing metadata envelope'' (Some (path e)) err]
            (run P (s\<lparr>toKeep := set_true (toKeep s) contentID,
                       failureCount := failureCount s + 1\<rparr>) evs))
     \<and> (classify (path e) = Config \<and> materialize P (stream_size e) chunks = Inl err
        \<longrightarrow> run P s (Entry e # evs) =
          emit [Log Ldebug ''Received entry for path'',
                LogProblem Lwarn ''Bulk upload problem: parsing config.json'' (Some (path e)) err]
            (run P s evs))
     \<and> (classify (path e) = Config \<and> materialize P (stream_size e) chunks = Inr v
          \<and> get_prop v ''contentIDBase'' = Inr w \<and> \<not> truthy_opt w
        \<longrightarrow> run P s (Entry e # evs) =
          emit [Log Ldebug ''Received entry for path'',
                LogProblem Lwarn ''Bulk upload problem: parsing config.json'' (Some (path e))
                  (Error ''Missing required key: contentIDBase'')]
            (run P s evs))
     \<and> (classify (path e) = Keep \<and> materialize P (stream_size e) chunks = Inl err
        \<longrightarrow> run P s (Entry e # evs) =
          emit [Log Ldebug ''Received entry for path'',
                LogProblem Lwarn ''Bulk upload problem: parsing keep.json'' (Some (path e)) err]
            (run P s evs))
     \<and> (classify (path e) = Keep \<and> materialize P (stream_size e) chunks = Inr v
          \<and> get_prop v ''keep'' = Inr w \<and> \<not> truthy_opt w
        \<longrightarrow> run P s (Entry e # evs) =
          emit [Log Ldebug ''Received entry for path'',
                LogProblem Lwarn ''Bulk upload problem: parsing keep.json'' (Some (path e))
                  (Error ''Missing required key: keep'')]
            (run P s evs))"
proof (intro conjI impI; elim conjE)
  assume "classify_by_name (path e) = Envelope (Some contentID)"
    and "materialize P (stream_size e) chunks = Inl err"
  then show "run P s (Entry e # evs) =
          emit [Log Ldebug ''Received entry for path'',
                LogProblem Lwarn ''Bulk upload problem: parsing metadata envelope'' (Some (path e)) err]
            (run P (s\<lparr>toKeep := set_true (toKeep s) contentID,
                       failureCount := failureCount s + 1\<rparr>) evs)"
    using assms
    by (simp add: case_prod_beta on_entry_envelope_id jsonFromStream_to_end on_stream_end_def
        call_with_error_def envelope_callback_def reportError_def emit_def)
next
  assume "classify (path e) = Config" and "materialize P (stream_size e) chunks = Inl err"
  then show "run P s (Entry e # evs) =
          emit [Log Ldebug ''Received entry for path'',
                LogProblem Lwarn ''Bulk upload problem: parsing config.json'' (Some (path e)) err]
            (run P s evs)"
    using assms
    by (simp add: case_prod_beta on_entry_config handleConfigEntry_def jsonFromStream_to_end
        on_stream_end_def call_with_error_def config_callback_def reportError_def emit_def)
next
  assume "classify (path e) = Config" and "materialize P (stream_size e) chunks = Inr v"
    and "get_prop v ''contentIDBase'' = Inr w" and "\<not> truthy_opt w"
  then show "run P s (Entry e # evs) =
          emit [Log Ldebug ''Received entry for path'',
                LogProblem Lwarn ''Bulk upload problem: parsing config.json'' (Some (path e))
                  (Error ''Missing required key: contentIDBase'')]
            (run P s evs)"
    using assms
    by (simp add: case_prod_beta on_entry_config handleConfigEntry_def jsonFromStream_to_end
        on_stream_end_def config_callback_def reportError_def emit_def)
next
  assume "classify (path e) = Keep" and "materialize P (stream_size e) chunks = Inl err"
  then show "run P s (Entry e # evs) =
          emit [Log Ldebug ''Received entry for path'',
                LogProblem Lwarn ''Bulk upload problem: parsing keep.json'' (Some (path e)) err]
            (run P s evs)"
    using assms
    by (simp add: case_prod_beta on_entry_keep handleKeepEntry_def jsonFromStream_to_end
        on_stream_end_def call_with_error_def keep_callback_def reportError_def emit_def)
next
  assume "classify (path e) = Keep" and "materialize P (stream_size e) chunks = Inr v"
    and "get_prop v ''keep'' = Inr w" and "\<not> truthy_opt w"
  then show "run P s (Entry e # evs) =
          emit [Log Ldebug ''Received entry for path'',
                LogProblem Lwarn ''Bulk upload problem: parsing keep.json'' (Some (path e))
                  (Error ''Missing required key: keep'')]
            (run P s evs)"
    using assms
    by (simp add: case_prod_beta on_entry_keep handleKeepEntry_def jsonFromStream_to_end
        on_stream_end_def keep_callback_def reportError_def emit_def)
qed

text \<open>
  The five cases, each followed by the end of the stream: the request completes, with one
  failure counted for the envelope and none for the Config and Keep entries.
\<close>

theorem entry_errors_not_fatal_witness:
  "snd (run parse_examples initial [Entry broken_envelope_example, ParseEnd]) =
     [Log Ldebug ''Received entry for path'',
      LogProblem Lwarn ''Bulk upload problem: parsing metadata envelope'' (Some ''x/a.json'')
        SyntaxError,
      Log Ldebug ''Skipping content deletion.'', LogCompleted 0 1 0, Send 204 None, Next]
   \<and> snd (run parse_examples initial [Entry broken_config_example, ParseEnd]) =
     [Log Ldebug ''Received entry for path'',
      LogProblem Lwarn ''Bulk upload problem: parsing config.json'' (Some ''metadata/config.json'')
        SyntaxError,
      Log Ldebug ''Skipping content deletion.'', LogCompleted 0 0 0, Send 204 None, Next]
   \<and> snd (run parse_examples initial [Entry empty_config_example, ParseEnd]) =
     [Log Ldebug ''Received entry for path'',
      LogProblem Lwarn ''Bulk upload problem: parsing config.json'' (Some ''metadata/config.json'')
        (Error ''Missing required key: contentIDBase''),
      Log Ldebug ''Skipping content deletion.'', LogCompleted 0 0 0, Send 204 None, Next]
   \<and> snd (run parse_examples initial [Entry broken_keep_example, ParseEnd]) =
     [Log Ldebug ''Received entry for path'',
      LogProblem Lwarn ''Bulk upload problem: parsing keep.json'' (Some ''metadata/keep.json'')
        SyntaxError,
      Log Ldebug ''Skipping content deletion.'', LogCompleted 0 0 0, Send 204 None, Next]
   \<and> snd (run parse_examples initial [Entry empty_keep_example, ParseEnd]) =
     [Log Ldebug ''Received entry for path'',
      LogProblem Lwarn ''Bulk upload problem: parsing keep.json'' (Some ''metadata/keep.json'')
        (Error ''Missing required key: keep''),
      Log Ldebug ''Skipping content deletion.'', LogCompleted 0 0 0, Send 204 None, Next]"
proof -
  have types: "etype broken_envelope_example = File" "etype broken_config_example = File"
    "etype empty_config_example = File" "etype broken_keep_example = File"
    "etype empty_keep_example = File"
    by (simp_all add: broken_envelope_example_def broken_config_example_def
        empty_config_example_def broken_keep_example_def empty_keep_example_def file_entry_def)
  have streams: "stream broken_envelope_example = map Data [''{''] @ [StreamEnd]"
    "stream broken_config_example = map Data [''{''] @ [StreamEnd]"
    "stream empty_config_example = map Data [''{}''] @ [StreamEnd]"
    "stream broken_keep_example = map Data [''{''] @ [StreamEnd]"
    "stream empty_keep_example = map Data [''{}''] @ [StreamEnd]"
    by (simp_all add: broken_envelope_example_def broken_config_example_def
        empty_config_example_def broken_keep_example_def empty_keep_example_def file_entry_def)
  have classes: "classify_by_name (path broken_envelope_example) = Envelope (Some ''a'')"
    "classify (path broken_config_example) = Config"
    "classify (path empty_config_example) = Config"
    "classify (path broken_keep_example) = Keep"
    "classify (path empty_keep_example) = Keep"
    by code_simp+
  have parses: "materialize parse_examples (stream_size broken_envelope_example) [''{''] = Inl SyntaxError"
    "materialize parse_examples (stream_size broken_config_example) [''{''] = Inl SyntaxError"
    "materialize parse_examples (stream_size empty_config_example) [''{}''] = Inr (JObject [])"
    "materialize parse_examples (stream_size broken_keep_example) [''{''] = Inl SyntaxError"
    "materialize parse_examples (stream_size empty_keep_example) [''{}''] = Inr (JObject [])"
    by code_simp+
  have keys: "get_prop (JObject []) ''contentIDBase'' = Inr None"
    "get_prop (JObject []) ''keep'' = Inr None" "\<not> truthy_opt None"
    by (simp_all add: truthy_opt_def)
  have a1: "run parse_examples initial [Entry broken_envelope_example, ParseEnd] =
      emit [Log Ldebug ''Received entry for path'',
            LogProblem Lwarn ''Bulk upload problem: parsing metadata envelope''
              (Some (path broken_envelope_example)) SyntaxError]
        (run parse_examples (initial\<lparr>toKeep := set_true (toKeep initial) ''a'',
                                     failureCount := failureCount initial + 1\<rparr>) [ParseEnd])"
    by (rule entry_errors_not_fatal [OF types(1) streams(1), THEN conjunct1, THEN mp])
       (simp add: classes(1) parses(1))
  have b1: "snd (emit [Log Ldebug ''Received entry for path'',
            LogProblem Lwarn ''Bulk upload problem: parsing metadata envelope''
              (Some (path broken_envelope_example)) SyntaxError]
        (run parse_examples (initial\<lparr>toKeep := set_true (toKeep initial) ''a'',
                                     failureCount := failureCount initial + 1\<rparr>) [ParseEnd])) =
     [Log Ldebug ''Received entry for path'',
      LogProblem Lwarn ''Bulk upload problem: parsing metadata envelope'' (Some ''x/a.json'')
        SyntaxError,
      Log Ldebug ''Skipping content deletion.'', LogCompleted 0 1 0, Send 204 None, Next]"
    by code_simp
  have 1: "snd (run parse_examples initial [Entry broken_envelope_example, ParseEnd]) =
     [Log Ldebug ''Received entry for path'',
      LogProblem Lwarn ''Bulk upload problem: parsing metadata envelope'' (Some ''x/a.json'')
        SyntaxError,
      Log Ldebug ''Skipping content deletion.'', LogCompleted 0 1 0, Send 204 None, Next]"
    unfolding a1 by (rule b1)
  have a2: "run parse_examples initial [Entry broken_config_example, ParseEnd] =
      emit [Log Ldebug ''Received entry for path'',
            LogProblem Lwarn ''Bulk upload problem: parsing config.json''
              (Some (path broken_config_example)) SyntaxError]
        (run parse_examples initial [ParseEnd])"
    by (rule entry_errors_not_fatal [OF types(2) streams(2), THEN conjunct2, THEN conjunct1, THEN mp])
       (simp add: classes(2) parses(2))
  have b2: "snd (emit [Log Ldebug ''Received entry for path'',
            LogProblem Lwarn ''Bulk upload problem: parsing config.json''
              (Some (path broken_config_example)) SyntaxError]
        (run parse_examples initial [ParseEnd])) =
     [Log Ldebug ''Received entry for path'',
      LogProblem Lwarn ''Bulk upload problem: parsing config.json'' (Some ''metadata/config.json'')
        SyntaxError,
      Log Ldebug ''Skipping content deletion.'', LogCompleted 0 0 0, Send 204 None, Next]"
    by code_simp
  have 2: "snd (run parse_examples initial [Entry broken_config_example, ParseEnd]) =
     [Log Ldebug ''Received entry for path'',
      LogProblem Lwarn ''Bulk upload problem: parsing config.json'' (Some ''metadata/config.json'')
        SyntaxError,
      Log Ldebug ''Skipping content deletion.'', LogCompleted 0 0 0, Send 204 None, Next]"
    unfolding a2 by (rule b2)
  have a3: "run parse_examples initial [Entry empty_config_example, ParseEnd] =
      emit [Log Ldebug ''Received entry for path'',
            LogProblem Lwarn ''Bulk upload problem: parsing config.json''
              (Some (path empty_config_example)) (Error ''Missing required key: contentIDBase'')]
        (run parse_examples initial [ParseEnd])"
    by (rule entry_errors_not_fatal [OF types(3) streams(3), where v = "JObject []" and w = None, THEN conjunct2, THEN conjunct2, THEN conjunct1, THEN mp])
       (simp add: classes(3) parses(3) keys)
  have b3: "snd (emit [Log Ldebug ''Received entry for path'',
            LogProblem Lwarn ''Bulk upload problem: parsing config.json''
              (Some (path empty_config_example)) (Error ''Missing required key: contentIDBase'')]
        (run parse_examples initial [ParseEnd])) =
     [Log Ldebug ''Received entry for path'',
      LogProblem Lwarn ''Bulk upload problem: parsing config.json'' (Some ''metadata/config.json'')
        (Error ''Missing required key: contentIDBase''),
      Log Ldebug ''Skipping content deletion.'', LogCompleted 0 0 0, Send 204 None, Next]"
    by code_simp
  have 3: "snd (run parse_examples initial [Entry empty_config_example, ParseEnd]) =
     [Log Ldebug ''Received entry for path'',
      LogProblem Lwarn ''Bulk upload problem: parsing config.json'' (Some ''metadata/config.json'')
        (Error ''Missing required key: contentIDBase''),
      Log Ldebug ''Skipping content deletion.'', LogCompleted 0 0 0, Send 204 None, Next]"
    unfolding a3 by (rule b3)
  have a4: "run parse_examples initial [Entry broken_keep_example, ParseEnd] =
      emit [Log Ldebug ''Received entry for path'',
            LogProblem Lwarn ''Bulk upload problem: parsing keep.json''
              (Some (path broken_keep_example)) SyntaxError]
        (run parse_examples initial [ParseEnd])"
    by (rule entry_errors_not_fatal [OF types(4) streams(4), THEN conjunct2, THEN conjunct2, THEN conjunct2, THEN conjunct1, THEN mp])
       (simp add: classes(4) parses(4))
  have b4: "snd (emit [Log Ldebug ''Received entry for path'',
            LogProblem Lwarn ''Bulk upload problem: parsing keep.json''
              (Some (path broken_keep_example)) SyntaxError]
        (run parse_examples initial [ParseEnd])) =
     [Log Ldebug ''Received entry for path'',
      LogProblem Lwarn ''Bulk upload problem: parsing keep.json'' (Some ''metadata/keep.json'')
        SyntaxError,
      Log Ldebug ''Skipping content deletion.'', LogCompleted 0 0 0, Send 204 None, Next]"
    by code_simp
  have 4: "snd (run parse_examples initial [Entry broken_keep_example, ParseEnd]) =
     [Log Ldebug ''Received entry for path'',
      LogProblem Lwarn ''Bulk upload problem: parsing keep.json'' (Some ''metadata/keep.json'')
        SyntaxError,
      Log Ldebug ''Skipping content deletion.'', LogCompleted 0 0 0, Send 204 None, Next]"
    unfolding a4 by (rule b4)
  have a5: "run parse_examples initial [Entry empty_keep_example, ParseEnd] =
      emit [Log Ldebug ''Received entry for path'',
            LogProblem Lwarn ''Bulk upload problem: parsing keep.json''
              (Some (path empty_keep_example)) (Error ''Missing required key: keep'')]
        (run parse_examples initial [ParseEnd])"
    by (rule entry_errors_not_fatal [OF types(5) streams(5), where v = "JObject []" and w = None, THEN conjunct2, THEN conjunct2, THEN conjunct2, THEN conjunct2, THEN mp])
       (simp add: classes(5) parses(5) keys)
  have b5: "snd (emit [Log Ldebug ''Received entry for path'',
            LogProblem Lwarn ''Bulk upload problem: parsing keep.json''
              (Some (path empty_keep_example)) (Error ''Missing required key: keep'')]
        (run parse_examples initial [ParseEnd])) =
     [Log Ldebug ''Received entry for path'',
      LogProblem Lwarn ''Bulk upload problem: parsing keep.json'' (Some ''metadata/keep.json'')
        (Error ''Missing required key: keep''),
      Log Ldebug ''Skipping content deletion.'', LogCompleted 0 0 0, Send 204 None, Next]"
    by code_simp
  have 5: "snd (run parse_examples initial [Entry empty_keep_example, ParseEnd]) =
     [Log Ldebug ''Received entry for path'',
      LogProblem Lwarn ''Bulk upload problem: parsing keep.json'' (Some ''metadata/keep.json'')
        (Error ''Missing required key: keep''),
      Log Ldebug ''Skipping content deletion.'', LogCompleted 0 0 0, Send 204 None, Next]"
    unfolding a5 by (rule b5)
  from 1 2 3 4 5 show ?thesis by (intro conjI)
qed

subsection \<open>The end of the request\<close>

lemma finish_callback_error:
  "finish_callback (Some err) s =
     [LogProblem Lerror ''Fatal bulk upload problem: deleted content removal'' None err,
      NextError err 400,
      LogCompleted (envelopeCount s) (failureCount s) (deletionCount s), Send 204 None, Next]"
  by (simp add: finish_callback_def reportError_def reportCompletion_def)

text \<open>
  Claim C1 does not hold of the code. The batch configures the base \<^verbatim>\<open>base\<close> and the
  listing of the store fails: the callback of \<^verbatim>\<open>finishRequest\<close> reports the fatal error
  and hands it to \<^verbatim>\<open>next\<close>, and then, not having returned, it calls
  \<^verbatim>\<open>reportCompletion\<close>, which logs the successful completion, sends the status 204 and
  calls \<^verbatim>\<open>next\<close> once more.
\<close>

theorem failed_listing_reports_completion:
  "snd (run parse_examples initial
          [Entry config_example, ParseEnd, ListPage (Inl (Error ''listing failed''))]) =
   [Log Ldebug ''Received entry for path'',
    ListContent (JString ''base''),
    LogProblem Lerror ''Fatal bulk upload problem: deleted content removal'' None
      (Error ''listing failed''),
    NextError (Error ''listing failed'') 400,
    LogCompleted 0 0 0, Send 204 None, Next]"
  by code_simp

text \<open>
  Claim C5 fails as it is stated: the error of a failed listing reaches \<^verbatim>\<open>next\<close> with the
  status code 400, which is not a server error.
\<close>

theorem reconciliation_failure_status_counterexample:
  "error_statuses (snd (run parse_examples initial
      [Entry config_example, ParseEnd, ListPage (Inl (Error ''listing failed''))])) = [400]
   \<and> \<not> server_class 400"
  by code_simp

text \<open>
  Claim C5, amended. When the listing or the removal fails, the error is handed on with
  the status code 400, a client error: the same code with which a corrupted tarball is
  answered.
\<close>

theorem reconciliation_failure_status:
  "(listing s = Some existing \<longrightarrow> error_statuses (snd (on_list_page (Inl err) s)) = [400])
   \<and> (removing s \<longrightarrow> error_statuses (snd (on_remove_done (Some err) s)) = [400])
   \<and> error_statuses (snd (on_parse_error err s)) = [400]
   \<and> client_class 400"
  by (simp add: on_list_page_def on_remove_done_def on_parse_error_def finish_callback_error
      client_class_def Let_def)

theorem reconciliation_failure_status_witness:
  "listing (fst (run parse_examples initial [Entry config_example, ParseEnd])) = Some []
   \<and> error_statuses (snd (on_list_page (Inl (Error ''listing failed''))
        (fst (run parse_examples initial [Entry config_example, ParseEnd])))) = [400]
   \<and> removing (fst (run parse_examples initial
        [Entry config_example, ParseEnd, ListPage (Inr [])]))
   \<and> error_statuses (snd (on_remove_done (Some (Error ''removal failed''))
        (fst (run parse_examples initial
           [Entry config_example, ParseEnd, ListPage (Inr [])])))) = [400]
   \<and> error_statuses (snd (on_parse_error (Error ''corrupted'') initial)) = [400]
   \<and> client_class 400"
proof -
  have 1: "listing (fst (run parse_examples initial [Entry config_example, ParseEnd])) = Some []"
    by code_simp
  have 2: "error_statuses (snd (on_list_page (Inl (Error ''listing failed''))
        (fst (run parse_examples initial [Entry config_example, ParseEnd])))) = [400]"
    by (rule reconciliation_failure_status [THEN conjunct1, THEN mp, OF 1])
  have 3: "removing (fst (run parse_examples initial
        [Entry config_example, ParseEnd, ListPage (Inr [])]))"
    by code_simp
  have 4: "error_statuses (snd (on_remove_done (Some (Error ''removal failed''))
        (fst (run parse_examples initial
           [Entry config_example, ParseEnd, ListPage (Inr [])])))) = [400]"
    by (rule reconciliation_failure_status [THEN conjunct2, THEN conjunct1, THEN mp, OF 3])
  have 5: "error_statuses (snd (on_parse_error (Error ''corrupted'') initial)) = [400]"
    by (rule reconciliation_failure_status [THEN conjunct2, THEN conjunct2, THEN conjunct1])
  have 6: "client_class 400"
    by (rule reconciliation_failure_status [THEN conjunct2, THEN conjunct2, THEN conjunct2])
  from 1 2 3 4 5 6 show ?thesis by (intro conjI)
qed

subsection \<open>The concurrency of the upload queue\<close>

lemma process_loop_bound:
  "length running \<le> concurrency \<Longrightarrow>
   length (fst (snd (process_loop waiting running))) \<le> concurrency"
  by (induction waiting running rule: process_loop.induct) (simp_all add: case_prod_beta)

lemma queue_process_bound:
  "length (workers s) \<le> concurrency \<Longrightarrow> length (workers (fst (queue_process s))) \<le> concurrency"
  using process_loop_bound [of "workers s" "tasks s"]
  by (simp add: queue_process_def case_prod_beta)

lemma finishRequest_workers: "workers (fst (finishRequest s)) = workers s"
  by (simp add: finishRequest_def removeDeletedContent_def split: option.splits)

lemma queue_next_bound:
  assumes "length (workers s) \<le> concurrency"
  shows "length (workers (fst (queue_next i s))) \<le> concurrency"
proof -
  define s1 where "s1 = s\<lparr>workers := take i (workers s) @ drop (Suc i) (workers s)\<rparr>"
  define s2 where "s2 = fst (if length (tasks s1) + length (workers s1) = 0 \<and> drain s1
                             then finishRequest s1 else (s1, []))"
  have "length (workers s1) \<le> concurrency"
    using assms by (simp add: s1_def)
  then have "length (workers s2) \<le> concurrency"
    by (simp add: s2_def finishRequest_workers)
  then have "length (workers (fst (queue_process s2))) \<le> concurrency"
    by (rule queue_process_bound)
  moreover have "fst (queue_next i s) = fst (queue_process s2)"
    unfolding queue_next_def Let_def case_prod_beta s2_def s1_def by (rule fst_conv)
  ultimately show ?thesis by simp
qed

lemma keep_forEach_workers: "workers (fst (fst (keep_forEach ids s))) = workers s"
  by (induction ids arbitrary: s) (simp_all split: sum.splits)

lemma callbacks_workers:
  "workers (fst (fst (config_callback p r s))) = workers s"
  "workers (fst (fst (keep_callback p r s))) = workers s"
  "workers (fst (fst (envelope_callback p cid r s))) = workers s"
  by (simp_all add: config_callback_def keep_callback_def envelope_callback_def queue_push_def
      keep_forEach_workers split: sum.splits option.splits json.splits)

lemma jsonFromStream_workers:
  assumes "\<And>r s. workers (fst (fst (callback r s))) = workers s"
  shows "workers (fst (jsonFromStream P sz callback evs chunks s)) = workers s"
  by (rule jsonFromStream_rel [where R = "\<lambda>a b. workers b = workers a"]) (simp_all add: assms)

lemma on_entry_workers: "workers (fst (on_entry P e s)) = workers s"
  by (simp add: on_entry_def emit_def Let_def handleConfigEntry_def handleKeepEntry_def
      handleEnvelopeEntry_def jsonFromStream_workers callbacks_workers split: option.splits)

lemma step_bound:
  assumes "length (workers s) \<le> concurrency"
  shows "length (workers (fst (step P s ev))) \<le> concurrency"
proof (cases ev)
  case (Entry e)
  then show ?thesis using assms by (simp add: on_entry_workers)
next
  case (ParseError err)
  then show ?thesis using assms by (simp add: on_parse_error_def)
next
  case ParseEnd
  then show ?thesis using assms by (simp add: on_parse_end_def finishRequest_workers)
next
  case Immediate
  then show ?thesis using assms queue_process_bound [of "s\<lparr>scheduled := scheduled s - 1\<rparr>"]
    by (simp add: on_immediate_def)
next
  case (StoreDone i err)
  then show ?thesis
    using assms queue_next_bound [of "s\<lparr>failureCount := failureCount s + 1\<rparr>" i]
      queue_next_bound [of "s\<lparr>envelopeCount := envelopeCount s + 1\<rparr>" i]
    by (simp add: on_store_done_def case_prod_beta split: option.splits)
next
  case (ListPage page)
  then show ?thesis using assms
    by (simp add: on_list_page_def Let_def split: option.splits sum.splits)
next
  case (RemoveDone err)
  then show ?thesis using assms
    by (simp add: on_remove_done_def Let_def split: option.splits)
qed

lemma run_bound:
  "length (workers s) \<le> concurrency \<Longrightarrow> length (workers (fst (run P s evs))) \<le> concurrency"
proof (induction evs arbitrary: s)
  case Nil
  then show ?case by simp
next
  case (Cons ev evs)
  from Cons.prems have "length (workers (fst (step P s ev))) \<le> concurrency"
    by (rule step_bound)
  then have "length (workers (fst (run P (fst (step P s ev)) evs))) \<le> concurrency"
    by (rule Cons.IH)
  then show ?case by (simp add: case_prod_beta)
qed

lemma puts_simps [simp]:
  "puts [] = 0"
  "puts (x # out) = (if is_put x then 1 else 0) + puts out"
  "puts (out @ out') = puts out + puts out'"
  by (simp_all add: puts_def)

lemma puts_none: "set out \<subseteq> {x. \<not> is_put x} \<Longrightarrow> puts out = 0"
  by (induction out) auto

lemma jsonFromStream_puts:
  assumes "\<And>r s. puts (snd (fst (callback r s))) = 0"
  shows "puts (snd (jsonFromStream P sz callback evs chunks s)) = 0"
proof (rule puts_none, rule jsonFromStream_effects)
  show "set (snd (fst (callback r s))) \<subseteq> {x. \<not> is_put x}" for r s
    using assms [of r s] by (auto simp: puts_def filter_empty_conv)
qed simp

lemma keep_forEach_out: "snd (fst (keep_forEach ids s)) = []"
  using keep_forEach_frame by blast

lemma callbacks_puts:
  "puts (snd (fst (config_callback p r s))) = 0"
  "puts (snd (fst (keep_callback p r s))) = 0"
  "puts (snd (fst (envelope_callback p cid r s))) = 0"
  by (simp_all add: config_callback_def keep_callback_def envelope_callback_def reportError_def
      keep_forEach_out split: sum.splits option.splits json.splits)

lemma on_entry_puts: "puts (snd (on_entry P e s)) = 0"
  by (simp add: on_entry_def emit_def Let_def handleConfigEntry_def handleKeepEntry_def
      handleEnvelopeEntry_def jsonFromStream_puts callbacks_puts split: option.splits)

lemma process_loop_puts:
  "puts (snd (snd (process_loop waiting running))) + length running =
   length (fst (snd (process_loop waiting running)))"
  by (induction waiting running rule: process_loop.induct)
     (simp_all add: case_prod_beta envelopeWorker_def)

lemma queue_process_puts:
  "puts (snd (queue_process s)) + length (workers s) = length (workers (fst (queue_process s)))"
  using process_loop_puts [of "tasks s" "workers s"]
  by (simp add: queue_process_def case_prod_beta)

lemma finishRequest_puts: "puts (snd (finishRequest s)) = 0"
  by (simp add: finishRequest_def removeDeletedContent_def finish_callback_def reportCompletion_def
      split: option.splits)

lemma queue_next_puts:
  assumes "i < length (workers s)"
  shows "puts (snd (queue_next i s)) + length (workers s) =
         Suc (length (workers (fst (queue_next i s))))"
proof -
  define s1 where "s1 = s\<lparr>workers := take i (workers s) @ drop (Suc i) (workers s)\<rparr>"
  define r2 where "r2 = (if length (tasks s1) + length (workers s1) = 0 \<and> drain s1
                         then finishRequest s1 else (s1, []))"
  have 1: "Suc (length (workers s1)) = length (workers s)"
    using assms by (simp add: s1_def)
  have 2: "workers (fst r2) = workers s1" and 3: "puts (snd r2) = 0"
    by (simp_all add: r2_def finishRequest_workers finishRequest_puts)
  have "queue_next i s = (fst (queue_process (fst r2)), snd r2 @ snd (queue_process (fst r2)))"
    unfolding queue_next_def Let_def case_prod_beta r2_def s1_def by (rule refl)
  then show ?thesis
    using queue_process_puts [of "fst r2"] 1 2 3 by simp
qed

lemma step_puts:
  "puts (snd (step P s ev)) + length (workers s) =
   completed P s [ev] + length (workers (fst (step P s ev)))"
proof (cases ev)
  case (Entry e)
  then show ?thesis by (simp add: on_entry_puts on_entry_workers)
next
  case (ParseError err)
  then show ?thesis by (simp add: on_parse_error_def)
next
  case ParseEnd
  then show ?thesis by (simp add: on_parse_end_def finishRequest_workers finishRequest_puts)
next
  case Immediate
  then show ?thesis using queue_process_puts [of "s\<lparr>scheduled := scheduled s - 1\<rparr>"]
    by (simp add: on_immediate_def)
next
  case (StoreDone i err)
  then show ?thesis
    using queue_next_puts [of i "s\<lparr>failureCount := failureCount s + 1\<rparr>"]
      queue_next_puts [of i "s\<lparr>envelopeCount := envelopeCount s + 1\<rparr>"]
    by (simp add: on_store_done_def case_prod_beta reportError_def split: option.splits)
next
  case (ListPage page)
  then show ?thesis
    by (simp add: on_list_page_def Let_def finish_callback_def reportError_def reportCompletion_def
        split: option.splits sum.splits)
next
  case (RemoveDone err)
  then show ?thesis
    by (simp add: on_remove_done_def Let_def finish_callback_def reportError_def
        reportCompletion_def split: option.splits)
qed

lemma run_puts:
  "puts (snd (run P s evs)) + length (workers s) =
   completed P s evs + length (workers (fst (run P s evs)))"
proof (induction evs arbitrary: s)
  case Nil
  show ?case by simp
next
  case (Cons ev evs)
  have "puts (snd (run P s (ev # evs))) + length (workers s) =
        puts (snd (run P (fst (step P s ev)) evs)) + (puts (snd (step P s ev)) + length (workers s))"
    by (simp add: case_prod_beta)
  also have "\<dots> = puts (snd (run P (fst (step P s ev)) evs))
        + (completed P s [ev] + length (workers (fst (step P s ev))))"
    by (simp only: step_puts)
  also have "\<dots> = completed P s [ev]
        + (completed P (fst (step P s ev)) evs + length (workers (fst (run P (fst (step P s ev)) evs))))"
    using Cons.IH [of "fst (step P s ev)"] by simp
  finally show ?case by (simp add: case_prod_beta)
qed

text \<open>
  Claim C9. At every moment of a request, that is after every sequence of events from
  the start, the storage puts that have been started and have not completed are the
  running tasks of the queue, and there are at most ten of them, however many tasks are
  waiting.
\<close>

theorem at_most_ten_puts_in_flight:
  "puts (snd (run P initial evs)) =
     completed P initial evs + length (workers (fst (run P initial evs)))
   \<and> length (workers (fst (run P initial evs))) \<le> 10
   \<and> puts (snd (run P initial evs)) - completed P initial evs \<le> 10"
proof -
  have "length (workers initial) \<le> concurrency" by (simp add: initial_def)
  then have "length (workers (fst (run P initial evs))) \<le> concurrency" by (rule run_bound)
  then have 1: "length (workers (fst (run P initial evs))) \<le> 10" by (simp add: concurrency_def)
  have 2: "puts (snd (run P initial evs)) =
     completed P initial evs + length (workers (fst (run P initial evs)))"
    using run_puts [of P initial evs] by (simp add: initial_def)
  from 1 2 show ?thesis by simp
qed

text \<open>
  Eleven envelopes arrive and the deferred call of \<^verbatim>\<open>process\<close> takes place: ten puts are
  started and one task waits.
\<close>

theorem at_most_ten_puts_in_flight_witness:
  "puts (snd (run parse_examples initial (eleven_envelopes @ [Immediate]))) = 10
   \<and> completed parse_examples initial (eleven_envelopes @ [Immediate]) = 0
   \<and> length (tasks (fst (run parse_examples initial (eleven_envelopes @ [Immediate])))) = 1
   \<and> length (workers (fst (run parse_examples initial (eleven_envelopes @ [Immediate])))) \<le> 10"
proof -
  have 1: "puts (snd (run parse_examples initial (eleven_envelopes @ [Immediate]))) = 10"
    by code_simp
  have 2: "completed parse_examples initial (eleven_envelopes @ [Immediate]) = 0"
    by code_simp
  have 3: "length (tasks (fst (run parse_examples initial (eleven_envelopes @ [Immediate])))) = 1"
    by code_simp
  have 4: "length (workers (fst (run parse_examples initial (eleven_envelopes @ [Immediate])))) \<le> 10"
    by (rule at_most_ten_puts_in_flight [THEN conjunct2, THEN conjunct1])
  from 1 2 3 4 show ?thesis by (intro conjI)
qed


subsection \<open>The Reconciliation Pass\<close>





lemma calm_simps [simp]:
  "calm []" "calm (x # out) = (\<not> reconciling x \<and> calm out)"
  "calm (out @ out') = (calm out \<and> calm out')"
  by (auto simp: calm_def)








lemma calm_finish_callback [simp]: "calm (finish_callback err s)"
  by (simp add: finish_callback_def reportError_def reportCompletion_def split: option.splits)









subsection \<open>The end of the stream and the queue\<close>


lemma still_simps [simp]:
  "still []" "still (x # out) = (\<not> begins x \<and> still out)"
  "still (out @ out') = (still out \<and> still out')"
  by (auto simp: still_def)
















lemma still_finish_callback [simp]: "still (finish_callback err s)"
  by (simp add: finish_callback_def reportError_def reportCompletion_def split: option.splits)








text \<open>
  The order of the events is the parse stream's, the handler does not enforce it: the
  end of the stream tests \<^verbatim>\<open>running()\<close>, the number of tasks that have been started.
  Were the end of the stream delivered before the deferred call of \<^verbatim>\<open>process\<close>, no task
  would be running and the store would be listed while the task of the envelope is still
  waiting in the queue.
\<close>

lemma end_before_deferred_call:
  "\<not> deferred_before_end parse_examples initial
        [Entry config_example, Entry envelope_example, ParseEnd]
   \<and> snd (run parse_examples initial [Entry config_example, Entry envelope_example, ParseEnd]) =
     [Log Ldebug ''Received entry for path'', Log Ldebug ''Received entry for path'',
      ListContent (JString ''base'')]
   \<and> tasks (fst (run parse_examples initial
        [Entry config_example, Entry envelope_example, ParseEnd])) = [(''b c'', JObject [])]
   \<and> workers (fst (run parse_examples initial
        [Entry config_example, Entry envelope_example, ParseEnd])) = []"
  by code_simp

end
